(* ===== verification/Prelude.thy ===== *)
theory Prelude
  imports Main
begin

text \<open>
  Shared vocabulary of the development.

  \<^item> Go values: a Go \<open>error\<close> is the message it prints, because the program compares errors
    with \<open>nil\<close> only; a call that returns \<open>(T, error)\<close> is a \<open>'a result\<close>, with \<open>Inl\<close> for
    the error; a call that can also panic is a \<open>'a outcome\<close>.
  \<^item> The collections of the library: \<open>go_simps\<close> (unfoldings of small Go helpers) and
    \<open>step_intros\<close> (introduction rules of the step relations).
  \<^item> Generic lemmas on lists that the components share, above all splitting a list at a
    separator.
\<close>

named_theorems go_simps \<open>unfoldings of the small Go helpers\<close>
named_theorems step_intros \<open>introduction rules of the step relations\<close>


section \<open>Go errors, results and panics\<close>

type_synonym error = string

type_synonym 'a result = "error + 'a"

datatype 'a outcome = Value 'a | Failure error | Panic string

definition is_error :: "'a result \<Rightarrow> bool" where
  "is_error r \<longleftrightarrow> (case r of Inl _ \<Rightarrow> True | Inr _ \<Rightarrow> False)"

lemma is_error_simps [simp]: "is_error (Inl e)" "\<not> is_error (Inr x)"
  by (simp_all add: is_error_def)

lemma not_is_errorE:
  assumes "\<not> is_error r"
  obtains x where "r = Inr x"
  using assms by (cases r) auto


section \<open>Splitting a list at a separator\<close>

text \<open>
  \<open>split_on c xs\<close> is the list of the maximal pieces of \<open>xs\<close> between occurrences of \<open>c\<close>, and
  \<open>join_with c\<close> puts the pieces back together. The result of \<open>split_on\<close> is never empty, and
  no piece contains the separator.
\<close>

fun split_on :: "'a \<Rightarrow> 'a list \<Rightarrow> 'a list list" where
  "split_on c [] = [[]]"
| "split_on c (x # xs) =
     (if x = c then [] # split_on c xs
      else (case split_on c xs of [] \<Rightarrow> [[x]] | ys # yss \<Rightarrow> (x # ys) # yss))"

fun join_with :: "'a \<Rightarrow> 'a list list \<Rightarrow> 'a list" where
  "join_with c [] = []"
| "join_with c [xs] = xs"
| "join_with c (xs # xss) = xs @ c # join_with c xss"

lemma split_on_not_Nil [simp]: "split_on c xs \<noteq> []"
  by (induction xs) (auto split: list.splits)

lemma split_on_no_sep: "c \<notin> set xs \<Longrightarrow> split_on c xs = [xs]"
  by (induction xs) auto

lemma split_on_append:
  "c \<notin> set xs \<Longrightarrow> split_on c (xs @ c # ys) = xs # split_on c ys"
  by (induction xs) auto

lemma split_on_append_sep:
  "split_on c (xs @ c # ys) = split_on c xs @ split_on c ys"
  by (induction xs) (auto split: list.splits simp: neq_Nil_conv)

lemma split_on_pieces: "ys \<in> set (split_on c xs) \<Longrightarrow> c \<notin> set ys"
  by (induction xs arbitrary: ys) (auto split: list.splits if_splits)

lemma join_with_Cons: "xss \<noteq> [] \<Longrightarrow> join_with c (xs # xss) = xs @ c # join_with c xss"
  by (cases xss) auto

lemma join_split_on: "join_with c (split_on c xs) = xs"
proof (induction xs)
  case (Cons x xs)
  then show ?case
    by (cases "split_on c xs"; cases "tl (split_on c xs)") (auto simp: join_with_Cons)
qed simp

lemma split_on_join:
  assumes "xss \<noteq> []" and "\<forall>xs \<in> set xss. c \<notin> set xs"
  shows "split_on c (join_with c xss) = xss"
  using assms
proof (induction xss)
  case (Cons xs xss)
  then show ?case
    by (cases "xss = []") (simp_all add: split_on_no_sep join_with_Cons split_on_append)
qed simp

lemma split_on_eq_iff:
  "split_on c xs = xss \<longleftrightarrow> xss \<noteq> [] \<and> (\<forall>ys \<in> set xss. c \<notin> set ys) \<and> join_with c xss = xs"
  using split_on_pieces split_on_join join_split_on by (metis split_on_not_Nil)

lemma set_join_with: "set (join_with c xss) \<subseteq> insert c (\<Union> (set ` set xss))"
  by (induction c xss rule: join_with.induct) auto

lemma set_piece_subset: "ys \<in> set (split_on c xs) \<Longrightarrow> set ys \<subseteq> set xs"
proof (induction xs arbitrary: ys)
  case (Cons x xs)
  obtain zs zss where z: "split_on c xs = zs # zss"
    by (cases "split_on c xs") auto
  with Cons.IH have "set zs \<subseteq> set xs" and "\<forall>y \<in> set zss. set y \<subseteq> set xs"
    by auto
  with Cons.prems z show ?case
    by (auto split: if_splits)
qed simp


lemma split_on_snoc: "split_on c (xs @ [c]) = split_on c xs @ [[]]"
  by (simp add: split_on_append_sep)

lemma split_on_snoc_other:
  "x \<noteq> c \<Longrightarrow> split_on c (xs @ [x]) = butlast (split_on c xs) @ [last (split_on c xs) @ [x]]"
proof (induction xs)
  case (Cons y ys)
  then show ?case by (cases "split_on c ys") auto
qed simp

lemma split_on_inject: "split_on c xs = split_on c ys \<longleftrightarrow> xs = ys"
  by (metis join_split_on)

lemma last_split_on_Nil: "last (split_on c xs) = [] \<longleftrightarrow> xs = [] \<or> last xs = c"
  by (cases xs rule: rev_cases; cases "last xs = c") (auto simp: split_on_snoc split_on_snoc_other)


section \<open>Lists\<close>

text \<open>Cutting a non-empty list in two: before its first element, or after it.\<close>

lemma ex_append_Cons:
  "(\<exists>u v. c # w = u @ v \<and> P u v) \<longleftrightarrow> P [] (c # w) \<or> (\<exists>u v. w = u @ v \<and> P (c # u) v)"
  by (auto simp: Cons_eq_append_conv)

text \<open>The first element with \<open>Q\<close>, after elements with \<open>P\<close> only.\<close>

lemma first_match_Cons:
  "(\<exists>before y after. x # xs = before @ y # after \<and> list_all P before \<and> Q y) \<longleftrightarrow>
   Q x \<or> P x \<and> (\<exists>before y after. xs = before @ y # after \<and> list_all P before \<and> Q y)"
  (is "?l \<longleftrightarrow> ?r")
proof
  assume ?l
  then show ?r by (auto simp: Cons_eq_append_conv) blast
next
  assume ?r
  then show ?l
  proof
    assume "Q x"
    then show ?thesis by (intro exI [of _ "[]"]) simp
  next
    assume "P x \<and> (\<exists>before y after. xs = before @ y # after \<and> list_all P before \<and> Q y)"
    then obtain before y after where "P x" "xs = before @ y # after" "list_all P before" "Q y" by blast
    then show ?thesis by (intro exI [of _ "x # before"]) simp
  qed
qed

lemma last_butlast_iff: "xs \<noteq> [] \<Longrightarrow> last xs = x \<and> butlast xs = ys \<longleftrightarrow> xs = ys @ [x]"
  by auto

lemma first_separator_unique:
  "u @ c # v = u' @ c # v' \<Longrightarrow> c \<notin> set u \<Longrightarrow> c \<notin> set u' \<Longrightarrow> u = u'"
proof (induction u arbitrary: u')
  case Nil
  then show ?case by (cases u') auto
next
  case (Cons x u)
  then show ?case by (cases u') auto
qed

lemma sum_list_map_update:
  fixes f :: "'a \<Rightarrow> int"
  shows "i < length xs \<Longrightarrow> sum_list (map f (xs[i := y])) = sum_list (map f xs) - f (xs ! i) + f y"
  by (induction xs arbitrary: i) (auto split: nat.splits)

lemma sum_list_indicator_0:
  fixes f :: "'a \<Rightarrow> int"
  shows "(\<And>x. 0 \<le> f x) \<Longrightarrow> sum_list (map f xs) = 0 \<longleftrightarrow> list_all (\<lambda>x. f x = 0) xs"
proof (induction xs)
  case (Cons x xs)
  have "0 \<le> sum_list (map f xs)" by (rule sum_list_nonneg) (auto simp: Cons.prems)
  with Cons show ?case by (auto simp: add_nonneg_eq_0_iff)
qed simp

lemma list_all_update: "list_all P xs \<Longrightarrow> P y \<Longrightarrow> list_all P (xs[i := y])"
  by (auto simp: list_all_iff dest: set_update_subset_insert [THEN subsetD])

lemma list_all2_ex2: "list_all2 P xs ys \<Longrightarrow> y \<in> set ys \<Longrightarrow> \<exists>x \<in> set xs. P x y"
  by (induction rule: list_all2_induct) auto

lemma list_all2_ex1: "list_all2 P xs ys \<Longrightarrow> x \<in> set xs \<Longrightarrow> \<exists>y \<in> set ys. P x y"
  by (induction rule: list_all2_induct) auto

lemma list_all2_take_append:
  "list_all2 P xs (take (length xs) ys) \<longleftrightarrow> (\<exists>us vs. ys = us @ vs \<and> list_all2 P xs us)"
  (is "?l \<longleftrightarrow> ?r")
proof
  assume ?l
  then show ?r
    by (intro exI [of _ "take (length xs) ys"] exI [of _ "drop (length xs) ys"]) simp
next
  assume ?r
  then obtain us vs where "ys = us @ vs" "list_all2 P xs us" by blast
  then show ?l by (simp add: list_all2_lengthD)
qed

end
