(* ===== verification/Go_Strings.thy ===== *)
theory Go_Strings
  imports Prelude
begin

text \<open>
  The part of Go's \<open>unicode/utf8\<close> and \<open>strings\<close> packages that the program calls.

  A Go string is a sequence of bytes, and so is Isabelle's \<^typ>\<open>string\<close> (a list of 8-bit
  characters). A rune is a code point, a \<^typ>\<open>nat\<close>; a negative Go rune behaves as every other
  invalid rune does, so the naturals above \<open>0x10FFFF\<close> stand for it. \<open>DecodeRune\<close> follows the
  acceptance ranges of the Go decoder, including the replacement rune of width one for a byte
  that starts no valid encoding.
\<close>

type_synonym rune = nat


section \<open>UTF-8\<close>

definition byte :: "char \<Rightarrow> nat" where
  "byte c = of_char c"

definition RuneError :: rune where
  "RuneError = 0xFFFD"

definition is_cont :: "char \<Rightarrow> bool" where
  "is_cont c \<longleftrightarrow> 0x80 \<le> byte c \<and> byte c \<le> 0xBF"

definition cont_bits :: "char \<Rightarrow> nat" where
  "cont_bits c = byte c - 0x80"

definition accept_lo :: "nat \<Rightarrow> nat" where
  "accept_lo b0 = (if b0 = 0xE0 then 0xA0 else if b0 = 0xF0 then 0x90 else 0x80)"

definition accept_hi :: "nat \<Rightarrow> nat" where
  "accept_hi b0 = (if b0 = 0xED then 0x9F else if b0 = 0xF4 then 0x8F else 0xBF)"

definition DecodeRune :: "string \<Rightarrow> rune \<times> nat" where
  "DecodeRune s = (case s of
     [] \<Rightarrow> (RuneError, 0)
   | c0 # cs \<Rightarrow>
      (let b0 = byte c0 in
       if b0 < 0x80 then (b0, 1)
       else if 0xC2 \<le> b0 \<and> b0 \<le> 0xDF then
         (case cs of
            c1 # _ \<Rightarrow> if is_cont c1 then ((b0 - 0xC0) * 64 + cont_bits c1, 2) else (RuneError, 1)
          | _ \<Rightarrow> (RuneError, 1))
       else if 0xE0 \<le> b0 \<and> b0 \<le> 0xEF then
         (case cs of
            c1 # c2 # _ \<Rightarrow>
              if accept_lo b0 \<le> byte c1 \<and> byte c1 \<le> accept_hi b0 \<and> is_cont c2
              then ((b0 - 0xE0) * 4096 + cont_bits c1 * 64 + cont_bits c2, 3)
              else (RuneError, 1)
          | _ \<Rightarrow> (RuneError, 1))
       else if 0xF0 \<le> b0 \<and> b0 \<le> 0xF4 then
         (case cs of
            c1 # c2 # c3 # _ \<Rightarrow>
              if accept_lo b0 \<le> byte c1 \<and> byte c1 \<le> accept_hi b0 \<and> is_cont c2 \<and> is_cont c3
              then ((b0 - 0xF0) * 262144 + cont_bits c1 * 4096 + cont_bits c2 * 64
                      + cont_bits c3, 4)
              else (RuneError, 1)
          | _ \<Rightarrow> (RuneError, 1))
       else (RuneError, 1)))"

definition EncodeRune :: "rune \<Rightarrow> string" where
  "EncodeRune r0 =
    (let r = (if r0 > 0x10FFFF \<or> 0xD800 \<le> r0 \<and> r0 \<le> 0xDFFF then RuneError else r0) in
     if r < 0x80 then [char_of r]
     else if r < 0x800 then [char_of (0xC0 + r div 64), char_of (0x80 + r mod 64)]
     else if r < 0x10000 then
       [char_of (0xE0 + r div 4096), char_of (0x80 + r div 64 mod 64), char_of (0x80 + r mod 64)]
     else
       [char_of (0xF0 + r div 262144), char_of (0x80 + r div 4096 mod 64),
        char_of (0x80 + r div 64 mod 64), char_of (0x80 + r mod 64)])"

lemma byte_less_256: "byte c < 256"
  unfolding byte_def by (rule nat_of_char_less_256)

lemma byte_inject: "byte c = byte d \<longleftrightarrow> c = d"
  by (simp add: byte_def)

lemma DecodeRune_pos: "s \<noteq> [] \<Longrightarrow> 1 \<le> snd (DecodeRune s)"
  by (auto simp: DecodeRune_def Let_def split: list.splits)

lemma DecodeRune_ascii: "byte c < 0x80 \<Longrightarrow> DecodeRune (c # cs) = (byte c, 1)"
  by (simp add: DecodeRune_def)

text \<open>
  The runes of a string, each with the bytes it was read from: the loop of a \<open>range\<close> over a
  string and of the regexp engine's input step.
\<close>

function utf8_chunks :: "string \<Rightarrow> (rune \<times> string) list" where
  "utf8_chunks s =
     (if s = [] then []
      else (let (r, n) = DecodeRune s in (r, take n s) # utf8_chunks (drop n s)))"
  by pat_completeness auto
termination
proof (relation "measure length", goal_cases)
  case (2 s x r n)
  then show ?case using DecodeRune_pos [of s] by (simp add: prod_eq_iff)
qed simp

declare utf8_chunks.simps [simp del]

definition runes :: "string \<Rightarrow> rune list" where
  "runes s = map fst (utf8_chunks s)"

definition utf8_valid :: "string \<Rightarrow> bool" where
  "utf8_valid s \<longleftrightarrow> list_all (\<lambda>(r, bs). \<not> (r = RuneError \<and> length bs = 1)) (utf8_chunks s)"

lemma utf8_chunks_Nil [simp]: "utf8_chunks [] = []"
  by (simp add: utf8_chunks.simps)

lemma utf8_chunks_ascii [simp]:
  "byte c < 0x80 \<Longrightarrow> utf8_chunks (c # cs) = (byte c, [c]) # utf8_chunks cs"
  by (subst utf8_chunks.simps) (simp add: DecodeRune_ascii)

lemma concat_utf8_chunks: "concat (map snd (utf8_chunks s)) = s"
proof (induction s rule: utf8_chunks.induct)
  case (1 s)
  then show ?case
    by (subst utf8_chunks.simps) (auto split: prod.splits)
qed

lemma runes_Nil [simp]: "runes [] = []" and utf8_valid_Nil [simp]: "utf8_valid []"
  by (simp_all add: runes_def utf8_valid_def)

lemma runes_ascii [simp]: "byte c < 0x80 \<Longrightarrow> runes (c # cs) = byte c # runes cs"
  by (simp add: runes_def)

lemma utf8_valid_ascii [simp]: "byte c < 0x80 \<Longrightarrow> utf8_valid (c # cs) = utf8_valid cs"
  by (auto simp: utf8_valid_def RuneError_def)

lemma runes_unfold: "s \<noteq> [] \<Longrightarrow> DecodeRune s = (r, n) \<Longrightarrow> runes s = r # runes (drop n s)"
  by (simp add: runes_def utf8_chunks.simps [of s])

lemma runes_eq_Nil [simp]: "runes s = [] \<longleftrightarrow> s = []"
  by (cases "DecodeRune s"; cases "s = []") (auto simp: runes_unfold)

text \<open>
  UTF-8 is self-synchronising at ASCII bytes: an ASCII byte is always a rune of its own, and
  what precedes it decodes as it does on its own, invalid bytes included.
\<close>

lemma DecodeRune_append_ascii:
  assumes "a \<noteq> []" and c: "byte c < 0x80"
  shows "DecodeRune (a @ c # b) = DecodeRune a"
proof -
  have nc: "\<not> is_cont c" and lo: "\<And>x. \<not> accept_lo x \<le> byte c"
    using c by (auto simp: is_cont_def accept_lo_def)
  obtain a0 as where a: "a = a0 # as" using assms(1) by (cases a) auto
  consider "as = []" | a1 where "as = [a1]" | a1 a2 where "as = [a1, a2]"
    | a1 a2 a3 r where "as = a1 # a2 # a3 # r"
    by (metis list.exhaust)
  then show ?thesis
    by cases (use nc lo in \<open>auto simp: a DecodeRune_def Let_def split: list.splits\<close>)
qed

lemma DecodeRune_le: "s \<noteq> [] \<Longrightarrow> snd (DecodeRune s) \<le> length s"
  by (auto simp: DecodeRune_def Let_def split: list.splits)

lemma utf8_chunks_append_ascii:
  assumes c: "byte c < 0x80"
  shows "utf8_chunks (a @ c # b) = utf8_chunks a @ (byte c, [c]) # utf8_chunks b"
proof (induction a rule: utf8_chunks.induct)
  case (1 a)
  show ?case
  proof (cases "a = []")
    case False
    obtain r n where d: "DecodeRune a = (r, n)" by fastforce
    have n: "n \<le> length a" using DecodeRune_le [OF False] d by simp
    have "utf8_chunks (a @ c # b) = (r, take n (a @ c # b)) # utf8_chunks (drop n (a @ c # b))"
      by (subst utf8_chunks.simps) (simp add: DecodeRune_append_ascii [OF False c] d)
    also have "\<dots> = (r, take n a) # utf8_chunks (drop n a @ c # b)"
      using n by simp
    also have "\<dots> = (r, take n a) # utf8_chunks (drop n a) @ (byte c, [c]) # utf8_chunks b"
      using "1.IH" [OF False d [symmetric] refl] by simp
    also have "\<dots> = utf8_chunks a @ (byte c, [c]) # utf8_chunks b"
      by (simp add: utf8_chunks.simps [of a] False d)
    finally show ?thesis .
  qed (simp add: c)
qed

lemma runes_append_ascii:
  "byte c < 0x80 \<Longrightarrow> runes (a @ c # b) = runes a @ byte c # runes b"
  by (simp add: runes_def utf8_chunks_append_ascii)

lemma utf8_valid_append_ascii:
  "byte c < 0x80 \<Longrightarrow> utf8_valid (a @ c # b) \<longleftrightarrow> utf8_valid a \<and> utf8_valid b"
  by (auto simp: utf8_valid_def utf8_chunks_append_ascii RuneError_def)

text \<open>On valid input, decoding loses nothing: each chunk is the encoding of its rune.\<close>

lemma char_of_byte [simp]: "char_of (byte c) = c"
  by (simp add: byte_def)

lemma cont_bits: "is_cont c \<Longrightarrow> byte c = 0x80 + cont_bits c \<and> cont_bits c < 64"
  by (auto simp: is_cont_def cont_bits_def)

lemma horner_div: "x < 64 \<Longrightarrow> (a * 64 + x) div 64 = (a::nat)"
  and horner_mod: "x < 64 \<Longrightarrow> (a * 64 + x) mod 64 = (x::nat)"
  and div_4096: "a div 4096 = a div 64 div (64::nat)"
  and div_262144: "a div 262144 = a div 64 div 64 div (64::nat)"
  by (simp_all flip: div_mult2_eq)

lemma cont_char: "is_cont c \<Longrightarrow> char_of (0x80 + cont_bits c) = c"
  using cont_bits [of c] char_of_byte [of c] by simp

lemma EncodeRune_bmp:
  "0x800 \<le> r \<Longrightarrow> r < 0x10000 \<Longrightarrow> \<not> (0xD800 \<le> r \<and> r \<le> 0xDFFF) \<Longrightarrow>
   EncodeRune r = [char_of (0xE0 + r div 4096), char_of (0x80 + r div 64 mod 64),
     char_of (0x80 + r mod 64)]"
  unfolding EncodeRune_def Let_def by auto

lemma EncodeRune_2:
  assumes "0xC2 \<le> b0" "b0 \<le> 0xDF" "x < 64"
  shows "EncodeRune ((b0 - 0xC0) * 64 + x) = [char_of b0, char_of (0x80 + x)]"
proof -
  define k where "k = b0 - 0xC0"
  have b0: "b0 = 0xC0 + k" and k: "2 \<le> k" "k < 32" using assms by (auto simp: k_def)
  then have "\<not> k * 64 + x < 0x80" and "k * 64 + x < 0x800" using assms by auto
  then show ?thesis
    using assms unfolding b0 by (simp add: EncodeRune_def Let_def)
qed

lemma EncodeRune_3:
  assumes "k < 16" "x < 64" "y < 64" "k = 0 \<longrightarrow> 32 \<le> x" "k = 13 \<longrightarrow> x < 32"
  shows "EncodeRune (k * 4096 + x * 64 + y) =
    [char_of (0xE0 + k), char_of (0x80 + x), char_of (0x80 + y)]"
proof -
  let ?r = "k * 4096 + x * 64 + y"
  have big: "0x800 \<le> ?r"
    using assms by (cases "k = 0") auto
  have sur: "\<not> (0xD800 \<le> ?r \<and> ?r \<le> 0xDFFF)"
    using assms by (cases "k = 13"; cases "k < 13") auto
  have lim: "?r < 0x10000" using assms by auto
  have h: "?r = (k * 64 + x) * 64 + y" by simp
  have parts: "?r div 64 mod 64 = x" "?r mod 64 = y" "?r div 4096 = k"
    unfolding h div_4096 by (simp_all only: horner_div horner_mod assms)
  show ?thesis
    unfolding EncodeRune_bmp [OF big lim sur] parts ..
qed

lemma EncodeRune_4:
  assumes "k < 5" "x < 64" "y < 64" "z < 64" "k = 0 \<longrightarrow> 16 \<le> x" "k = 4 \<longrightarrow> x < 16"
  shows "EncodeRune (k * 262144 + x * 4096 + y * 64 + z) =
    [char_of (0xF0 + k), char_of (0x80 + x), char_of (0x80 + y), char_of (0x80 + z)]"
proof -
  let ?r = "k * 262144 + x * 4096 + y * 64 + z"
  have big: "\<not> ?r < 0x10000"
    using assms by (cases "k = 0") auto
  have lim: "\<not> ?r > 0x10FFFF"
    using assms by (cases "k = 4") auto
  have h: "?r = ((k * 64 + x) * 64 + y) * 64 + z" by simp
  have parts: "?r div 262144 = k" "?r div 4096 mod 64 = x" "?r div 64 mod 64 = y" "?r mod 64 = z"
    unfolding h div_4096 div_262144 by (simp_all only: horner_div horner_mod assms)
  show ?thesis
    using big lim parts by (simp add: EncodeRune_def Let_def)
qed

lemma EncodeRune_DecodeRune:
  assumes d: "DecodeRune s = (r, n)" and s0: "s \<noteq> []" and ok: "\<not> (r = RuneError \<and> n = 1)"
  shows "EncodeRune r = take n s"
proof -
  obtain c0 cs where s: "s = c0 # cs" using s0 by (cases s) auto
  define b0 where "b0 = byte c0"
  have c0: "char_of b0 = c0" by (simp add: b0_def)
  consider "b0 < 0x80" | "0xC2 \<le> b0" "b0 \<le> 0xDF" | "0xE0 \<le> b0" "b0 \<le> 0xEF"
    | "0xF0 \<le> b0" "b0 \<le> 0xF4"
    | "\<not> b0 < 0x80" "\<not> (0xC2 \<le> b0 \<and> b0 \<le> 0xDF)" "\<not> (0xE0 \<le> b0 \<and> b0 \<le> 0xEF)"
      "\<not> (0xF0 \<le> b0 \<and> b0 \<le> 0xF4)"
    by blast
  then show ?thesis
  proof cases
    case 1
    then show ?thesis
      using d by (auto simp: s DecodeRune_def Let_def EncodeRune_def b0_def)
  next
    case 2
    then obtain c1 t where "cs = c1 # t" "is_cont c1" "r = (b0 - 0xC0) * 64 + cont_bits c1" "n = 2"
      using d ok by (auto simp: s DecodeRune_def Let_def b0_def split: if_splits list.splits)
    then show ?thesis
      using 2 cont_bits [of c1] by (simp add: s c0 EncodeRune_2 cont_char)
  next
    case 3
    then obtain c1 c2 t where cs: "cs = c1 # c2 # t" and acc: "accept_lo b0 \<le> byte c1"
        "byte c1 \<le> accept_hi b0" "is_cont c2"
      and r: "r = (b0 - 0xE0) * 4096 + cont_bits c1 * 64 + cont_bits c2" "n = 3"
      using d ok by (auto simp: s DecodeRune_def Let_def b0_def split: if_splits list.splits)
    have c1: "is_cont c1" using acc by (auto simp: is_cont_def accept_lo_def accept_hi_def split: if_splits)
    have "EncodeRune r = [char_of (0xE0 + (b0 - 0xE0)), char_of (0x80 + cont_bits c1), char_of (0x80 + cont_bits c2)]"
      unfolding r using 3 acc cont_bits [OF c1] cont_bits [OF acc(3)]
      by (intro EncodeRune_3) (auto simp: accept_lo_def accept_hi_def split: if_splits)
    then show ?thesis
      using 3 r cont_bits [OF c1] cont_bits [OF acc(3)] by (simp add: s cs c0 cont_char c1 acc)
  next
    case 4
    then obtain c1 c2 c3 t where cs: "cs = c1 # c2 # c3 # t" and acc: "accept_lo b0 \<le> byte c1"
        "byte c1 \<le> accept_hi b0" "is_cont c2" "is_cont c3"
      and r: "r = (b0 - 0xF0) * 262144 + cont_bits c1 * 4096 + cont_bits c2 * 64 + cont_bits c3" "n = 4"
      using d ok by (auto simp: s DecodeRune_def Let_def b0_def split: if_splits list.splits)
    have c1: "is_cont c1" using acc by (auto simp: is_cont_def accept_lo_def accept_hi_def split: if_splits)
    note cb = cont_bits [OF c1] cont_bits [OF acc(3)] cont_bits [OF acc(4)]
    have "EncodeRune r = [char_of (0xF0 + (b0 - 0xF0)), char_of (0x80 + cont_bits c1), char_of (0x80 + cont_bits c2), char_of (0x80 + cont_bits c3)]"
      unfolding r using 4 acc cb
      by (intro EncodeRune_4) (auto simp: accept_lo_def accept_hi_def split: if_splits)
    then show ?thesis
      using 4 r cb by (simp add: s cs c0 cont_char c1 acc)
  next
    case 5
    then show ?thesis
      using d ok unfolding b0_def s DecodeRune_def Let_def list.case by (simp only: if_False prod.inject) simp
  qed
qed

lemma utf8_chunks_encoded:
  "utf8_valid s \<Longrightarrow> map snd (utf8_chunks s) = map EncodeRune (runes s)"
proof (induction s rule: utf8_chunks.induct)
  case (1 s)
  show ?case
  proof (cases "s = []")
    case False
    obtain r n where d: "DecodeRune s = (r, n)" by fastforce
    have ch: "utf8_chunks s = (r, take n s) # utf8_chunks (drop n s)"
      by (simp add: utf8_chunks.simps [of s] False d)
    have "n \<le> length s" using DecodeRune_le [OF False] d by simp
    then have "\<not> (r = RuneError \<and> n = 1)" and v: "utf8_valid (drop n s)"
      using "1.prems" by (auto simp: utf8_valid_def ch)
    then have "EncodeRune r = take n s"
      using EncodeRune_DecodeRune [OF d False] by simp
    moreover have "map snd (utf8_chunks (drop n s)) = map EncodeRune (runes (drop n s))"
      using "1.IH" [OF False d [symmetric] refl] v by simp
    ultimately show ?thesis by (simp add: ch runes_def)
  qed simp
qed

lemma utf8_valid_eq_encode: "utf8_valid s \<Longrightarrow> s = concat (map EncodeRune (runes s))"
  by (metis concat_utf8_chunks utf8_chunks_encoded)

lemma runes_inject: "utf8_valid s \<Longrightarrow> utf8_valid t \<Longrightarrow> runes s = runes t \<longleftrightarrow> s = t"
  by (metis utf8_valid_eq_encode)


section \<open>Package strings\<close>

definition HasPrefix :: "string \<Rightarrow> string \<Rightarrow> bool" where
  "HasPrefix s p \<longleftrightarrow> length p \<le> length s \<and> take (length p) s = p"

fun Contains :: "string \<Rightarrow> string \<Rightarrow> bool" where
  "Contains [] sub \<longleftrightarrow> sub = []"
| "Contains (c # s) sub \<longleftrightarrow> HasPrefix (c # s) sub \<or> Contains s sub"

text \<open>
  \<open>strings.Split\<close> with a non-empty separator: the pieces between its leftmost
  non-overlapping occurrences. The program never splits at the empty string.
\<close>

function Split_from :: "string \<Rightarrow> string \<Rightarrow> string \<Rightarrow> string list" where
  "Split_from piece s sep =
     (if s = [] then [piece]
      else if sep \<noteq> [] \<and> HasPrefix s sep then piece # Split_from [] (drop (length sep) s) sep
      else Split_from (piece @ [hd s]) (tl s) sep)"
  by pat_completeness auto
termination
  by (relation "measure (\<lambda>(_, s, _). length s)") auto

declare Split_from.simps [simp del]

definition Split :: "string \<Rightarrow> string \<Rightarrow> string list" where
  "Split s sep = Split_from [] s sep"

definition IsSpace :: "rune \<Rightarrow> bool" where
  "IsSpace r \<longleftrightarrow> r \<in> {9, 10, 11, 12, 13, 32, 0x85, 0xA0, 0x1680, 0x2028, 0x2029, 0x202F,
     0x205F, 0x3000} \<or> 0x2000 \<le> r \<and> r \<le> 0x200A"

definition TrimSpace :: "string \<Rightarrow> string" where
  "TrimSpace s =
     (let sp = (\<lambda>(r, _). IsSpace r)
      in concat (map snd (rev (dropWhile sp (rev (dropWhile sp (utf8_chunks s)))))))"

lemma HasPrefix_iff: "HasPrefix s p \<longleftrightarrow> (\<exists>t. s = p @ t)"
  by (auto simp: HasPrefix_def) (metis append_take_drop_id)

lemma HasPrefix_Cons1: "HasPrefix (x # s) [c] \<longleftrightarrow> x = c"
  by (simp add: HasPrefix_def)

lemma Contains_char: "Contains s [c] \<longleftrightarrow> c \<in> set s"
  by (induction s) (auto simp: HasPrefix_Cons1)

lemma Split_from_char:
  "Split_from piece s [c] = (piece @ hd (split_on c s)) # tl (split_on c s)"
proof (induction s arbitrary: piece)
  case (Cons x s)
  then show ?case
    by (cases "split_on c s")
      (auto simp: Split_from.simps [of piece "x # s"] HasPrefix_Cons1)
qed (simp add: Split_from.simps)

lemma Split_char: "Split s [c] = split_on c s"
  by (cases "split_on c s") (simp_all add: Split_def Split_from_char)

lemma TrimSpace_Nil [simp]: "TrimSpace [] = []"
  by (simp add: TrimSpace_def)

end
