(* ===== verification/Go_Json.thy ===== *)
theory Go_Json
  imports Go_Strings
begin

text \<open>
  The part of \<open>encoding/json\<close> that the status endpoint uses: the encoding of strings, booleans
  and objects. \<open>json_string\<close> is the encoder of Go with HTML escaping on. \<open>unquote\<close> reads a
  JSON string literal back, following RFC 8259; it serves to state that an encoded string means
  what it should.
\<close>


section \<open>Encoding strings\<close>

definition hex_digits :: string where
  "hex_digits = ''0123456789abcdef''"

definition hex :: "nat \<Rightarrow> char" where
  "hex n = hex_digits ! n"

definition html_safe :: "rune \<Rightarrow> bool" where
  "html_safe r \<longleftrightarrow> 0x20 \<le> r \<and> r < 0x80 \<and> r \<notin> {0x22, 0x26, 0x3C, 0x3E, 0x5C}"

fun json_rune :: "rune \<times> string \<Rightarrow> string" where
  "json_rune (r, bs) =
     (if r < 0x80 then
        (if html_safe r then bs
         else if r = 0x5C \<or> r = 0x22 then CHR 0x5C # bs
         else if r = 0x0A then [CHR 0x5C, CHR ''n'']
         else if r = 0x0D then [CHR 0x5C, CHR ''r'']
         else if r = 0x09 then [CHR 0x5C, CHR ''t'']
         else [CHR 0x5C, CHR ''u'', CHR ''0'', CHR ''0'', hex (r div 16), hex (r mod 16)])
      else if r = RuneError \<and> length bs = 1 then CHR 0x5C # ''ufffd''
      else if r = 0x2028 \<or> r = 0x2029 then CHR 0x5C # ''u202'' @ [hex (r mod 16)]
      else bs)"

definition json_string :: "string \<Rightarrow> string" where
  "json_string s = CHR 0x22 # concat (map json_rune (utf8_chunks s)) @ [CHR 0x22]"

definition json_bool :: "bool \<Rightarrow> string" where
  "json_bool b = (if b then ''true'' else ''false'')"

fun json_members :: "(string \<times> string) list \<Rightarrow> string" where
  "json_members [] = []"
| "json_members [(k, v)] = json_string k @ CHR '':'' # v"
| "json_members ((k, v) # ms) = json_string k @ CHR '':'' # v @ CHR '','' # json_members ms"

definition json_object :: "(string \<times> string) list \<Rightarrow> string" where
  "json_object ms = CHR 0x7B # json_members ms @ [CHR 0x7D]"


section \<open>Reading a string literal\<close>

definition hex_value :: "char \<Rightarrow> nat option" where
  "hex_value c =
     (let b = byte c in
      if 48 \<le> b \<and> b \<le> 57 then Some (b - 48)
      else if 97 \<le> b \<and> b \<le> 102 then Some (b - 87)
      else if 65 \<le> b \<and> b \<le> 70 then Some (b - 55)
      else None)"

fun hex4 :: "char \<Rightarrow> char \<Rightarrow> char \<Rightarrow> char \<Rightarrow> nat option" where
  "hex4 a b c d =
     (case (hex_value a, hex_value b, hex_value c, hex_value d) of
        (Some w, Some x, Some y, Some z) \<Rightarrow> Some (w * 4096 + x * 256 + y * 16 + z)
      | _ \<Rightarrow> None)"

text \<open>The character that a two-character escape stands for.\<close>

definition unescape :: "char \<Rightarrow> char option" where
  "unescape e =
     (if e \<in> {CHR 0x22, CHR 0x5C, CHR ''/''} then Some e
      else if e = CHR ''n'' then Some (CHR 0x0A)
      else if e = CHR ''r'' then Some (CHR 0x0D)
      else if e = CHR ''t'' then Some (CHR 0x09)
      else if e = CHR ''b'' then Some (CHR 0x08)
      else if e = CHR ''f'' then Some (CHR 0x0C)
      else None)"

definition prepend :: "string \<Rightarrow> (string \<times> string) option \<Rightarrow> (string \<times> string) option" where
  "prepend p r = map_option (apfst ((@) p)) r"

fun unquote_body :: "string \<Rightarrow> (string \<times> string) option" where
  "unquote_body [] = None"
| "unquote_body (c # cs) =
     (if c = CHR 0x22 then Some ([], cs)
      else if c = CHR 0x5C then
        (case cs of
           [] \<Rightarrow> None
         | e # cs' \<Rightarrow>
             if e = CHR ''u'' then
               (case cs' of
                  h1 # h2 # h3 # h4 # cs'' \<Rightarrow>
                    (case hex4 h1 h2 h3 h4 of
                       None \<Rightarrow> None
                     | Some r \<Rightarrow> prepend (EncodeRune r) (unquote_body cs''))
                | _ \<Rightarrow> None)
             else
               (case unescape e of
                  None \<Rightarrow> None
                | Some x \<Rightarrow> prepend [x] (unquote_body cs')))
      else if byte c < 0x20 then None
      else prepend [c] (unquote_body cs))"

definition unquote :: "string \<Rightarrow> (string \<times> string) option" where
  "unquote s = (case s of [] \<Rightarrow> None | c # cs \<Rightarrow> if c = CHR 0x22 then unquote_body cs else None)"


section \<open>Round trip\<close>

lemma hex_value_hex: "n < 16 \<Longrightarrow> hex_value (hex n) = Some n"
proof -
  assume "n < 16"
  moreover have "list_all (\<lambda>n. hex_value (hex n) = Some n) [0..<16]"
    by (simp add: hex_def hex_digits_def hex_value_def byte_def upt_rec)
  ultimately show ?thesis
    by (simp add: list_all_iff)
qed

lemma byte_char_of: "n < 256 \<Longrightarrow> byte (char_of n) = n"
  by (simp add: byte_def)

lemma EncodeRune_ascii: "r < 0x80 \<Longrightarrow> EncodeRune r = [char_of r]"
  by (simp add: EncodeRune_def Let_def)

lemma EncodeRune_high:
  assumes "0x80 \<le> r" and "c \<in> set (EncodeRune r)"
  shows "0x80 \<le> byte c"
proof -
  have *: "0x80 \<le> byte c" if "c = char_of n" "0x80 \<le> n" "n < 256" for n :: nat
    using that by (simp add: byte_char_of)
  define r' where "r' = (if r > 0x10FFFF \<or> 0xD800 \<le> r \<and> r \<le> 0xDFFF then RuneError else r)"
  have r': "0x80 \<le> r'" "r' \<le> 0x10FFFF"
    using assms(1) by (auto simp: r'_def RuneError_def)
  have "c = char_of (0xC0 + r' div 64) \<and> r' < 0x800 \<or> c = char_of (0x80 + r' mod 64) \<or>
      c = char_of (0xE0 + r' div 4096) \<and> r' < 0x10000 \<or> c = char_of (0x80 + r' div 64 mod 64) \<or>
      c = char_of (0xF0 + r' div 262144) \<or> c = char_of (0x80 + r' div 4096 mod 64)"
    using assms(2) r' by (auto simp: EncodeRune_def Let_def simp flip: r'_def split: if_splits)
  then show ?thesis
    using r' by (elim disjE conjE) (erule *; simp)+
qed

lemma prepend_simps [simp]:
  "prepend [] r = r" "prepend p (prepend q r) = prepend (p @ q) r" "prepend p (Some (x, y)) = Some (p @ x, y)"
  by (simp_all add: prepend_def option.map_comp option.map_ident apfst_def map_prod_def comp_def split_def)

lemma unquote_body_plain:
  "list_all (\<lambda>c. 0x20 \<le> byte c \<and> c \<noteq> CHR 0x22 \<and> c \<noteq> CHR 0x5C) bs \<Longrightarrow>
   unquote_body (bs @ t) = prepend bs (unquote_body t)"
  by (induction bs) auto

lemma escaped_chars:
  "char_of (0x5C :: nat) = CHR 0x5C" "char_of (0x22 :: nat) = CHR 0x22" "char_of (0x0A :: nat) = CHR 0x0A"
  "char_of (0x0D :: nat) = CHR 0x0D" "char_of (0x09 :: nat) = CHR 0x09"
  unfolding byte_inject [symmetric] by (simp_all add: byte_def)

lemma unquote_json_ascii:
  assumes "r < 0x80"
  shows "unquote_body (json_rune (r, [char_of r]) @ t) = prepend [char_of r] (unquote_body t)"
proof -
  have *: "byte (char_of r) = r" using assms by (simp add: byte_char_of)
  have q: "char_of r = CHR 0x22 \<longleftrightarrow> r = 0x22" "char_of r = CHR 0x5C \<longleftrightarrow> r = 0x5C"
    using * by (simp_all add: byte_def flip: byte_inject)
  show ?thesis
  proof (cases "html_safe r")
    case True
    then have "unquote_body ([char_of r] @ t) = prepend [char_of r] (unquote_body t)"
      by (intro unquote_body_plain) (auto simp: * q html_safe_def)
    with True assms show ?thesis by simp
  next
    case False
    have "r div 16 < 16" using assms by simp
    then have "hex4 (CHR ''0'') (CHR ''0'') (hex (r div 16)) (hex (r mod 16)) = Some r"
      by (simp add: hex_value_hex) (simp add: hex_value_def byte_def)
    then have u: "unquote_body ([CHR 0x5C, CHR ''u'', CHR ''0'', CHR ''0'', hex (r div 16), hex (r mod 16)] @ t) =
        prepend [char_of r] (unquote_body t)"
      using assms by (simp add: EncodeRune_ascii del: hex4.simps)
    consider "r = 0x5C" | "r = 0x22" | "r = 0x0A" | "r = 0x0D" | "r = 0x09"
      | "json_rune (r, [char_of r]) = [CHR 0x5C, CHR ''u'', CHR ''0'', CHR ''0'', hex (r div 16), hex (r mod 16)]"
      using False assms by fastforce
    then show ?thesis
    proof cases
      case 6
      then show ?thesis using u by (simp only:)
    qed (simp_all add: html_safe_def unescape_def escaped_chars)
  qed
qed

lemma unquote_json_rune:
  assumes "bs = EncodeRune r"
  shows "unquote_body (json_rune (r, bs) @ t) = prepend bs (unquote_body t)"
proof (cases "r < 0x80")
  case True
  then show ?thesis using assms unquote_json_ascii by (simp only: EncodeRune_ascii)
next
  case False
  have len: "length (EncodeRune RuneError) = 3"
    by (simp add: EncodeRune_def RuneError_def)
  consider "r = 0x2028" | "r = 0x2029" | "r \<noteq> 0x2028" "r \<noteq> 0x2029" by blast
  then show ?thesis
  proof cases
    case 3
    have "list_all (\<lambda>c. 0x20 \<le> byte c \<and> c \<noteq> CHR 0x22 \<and> c \<noteq> CHR 0x5C) bs"
      unfolding list_all_iff
    proof
      fix c assume "c \<in> set bs"
      then have "0x80 \<le> byte c" using EncodeRune_high [of r c] False assms by simp
      then show "0x20 \<le> byte c \<and> c \<noteq> CHR 0x22 \<and> c \<noteq> CHR 0x5C"
        by (auto simp: byte_def)
    qed
    then have "unquote_body (bs @ t) = prepend bs (unquote_body t)"
      by (rule unquote_body_plain)
    moreover have "json_rune (r, bs) = bs"
      using 3 False len assms by auto
    ultimately show ?thesis by simp
  qed (simp_all add: assms RuneError_def hex_def hex_digits_def hex_value_def byte_def)
qed

lemma unquote_json_string:
  assumes "utf8_valid s"
  shows "unquote (json_string s @ t) = Some (s, t)"
proof -
  have "unquote_body (concat (map json_rune chunks) @ CHR 0x22 # t) = Some (concat (map snd chunks), t)"
    if "list_all (\<lambda>(r, bs). bs = EncodeRune r) chunks" for chunks
    using that
  proof (induction chunks)
    case (Cons ch chunks)
    then show ?case
      by (cases ch) (simp add: unquote_json_rune del: json_rune.simps)
  qed simp
  moreover have "list_all (\<lambda>(r, bs). bs = EncodeRune r) (utf8_chunks s)"
    using utf8_chunks_encoded [OF assms]
    by (auto simp: runes_def list_all_length list_eq_iff_nth_eq split: prod.splits)
  ultimately show ?thesis
    by (simp add: unquote_def json_string_def concat_utf8_chunks)
qed


section \<open>Reading an object\<close>

text \<open>
  A reader of objects whose members are strings and booleans, written without white space, as
  the encoder writes them.
\<close>

datatype json_value = JString string | JBool bool

fun json_encode :: "json_value \<Rightarrow> string" where
  "json_encode (JString s) = json_string s"
| "json_encode (JBool b) = json_bool b"

definition read_value :: "string \<Rightarrow> (json_value \<times> string) option" where
  "read_value s =
     (if take 4 s = ''true'' then Some (JBool True, drop 4 s)
      else if take 5 s = ''false'' then Some (JBool False, drop 5 s)
      else map_option (apfst JString) (unquote s))"

definition read_member :: "string \<Rightarrow> ((string \<times> json_value) \<times> string) option" where
  "read_member s =
     (case unquote s of
        Some (k, c # rest) \<Rightarrow> if c = CHR '':'' then map_option (apfst (Pair k)) (read_value rest) else None
      | _ \<Rightarrow> None)"

lemma prepend_Some: "prepend p r = Some (x, y) \<Longrightarrow> \<exists>z. r = Some (z, y)"
  by (auto simp: prepend_def)

lemma unquote_body_shorter: "unquote_body s = Some (x, rest) \<Longrightarrow> length rest < length s"
proof (induction "length s" arbitrary: s x rule: less_induct)
  case less
  then obtain c cs where s: "s = c # cs" by (cases s) auto
  have IH: "length rest < length s" if "unquote_body t = Some (y, rest)" "length t < length s" for t y
    using less.hyps [OF that(2,1)] that(2) by simp
  note eq = less.prems [unfolded s unquote_body.simps(2) [of c cs]]
  consider "rest = cs" | t y where "unquote_body t = Some (y, rest)" "length t < length s"
    using eq unfolding s by (auto split: if_splits list.splits option.splits dest!: prepend_Some simp del: unquote_body.simps)
  then show ?case
  proof cases
    case 1
    then show ?thesis by (simp add: s)
  qed (rule IH)
qed

lemma unquote_shorter: "unquote s = Some (x, rest) \<Longrightarrow> length rest < length s"
  by (auto simp: unquote_def split: list.splits if_splits dest: unquote_body_shorter)

lemma read_value_shorter: "read_value s = Some (v, rest) \<Longrightarrow> length rest < length s"
  by (cases s) (auto simp: read_value_def split: if_splits dest: unquote_shorter)

lemma read_member_shorter: "read_member s = Some (m, rest) \<Longrightarrow> length rest < length s"
  by (fastforce simp: read_member_def split: option.splits list.splits if_splits dest!: unquote_shorter read_value_shorter)

function read_members :: "string \<Rightarrow> ((string \<times> json_value) list \<times> string) option" where
  "read_members s =
     (case read_member s of
        Some (m, c # rest) \<Rightarrow>
          if c = CHR '','' then map_option (apfst ((#) m)) (read_members rest)
          else if c = CHR 0x7D then Some ([m], rest) else None
      | _ \<Rightarrow> None)"
  by pat_completeness auto

termination read_members
  by (relation "measure length") (fastforce dest: read_member_shorter)+

declare read_members.simps [simp del]

definition read_object :: "string \<Rightarrow> (string \<times> json_value) list option" where
  "read_object s =
     (case s of
        c # rest \<Rightarrow>
          if c \<noteq> CHR 0x7B then None
          else (case read_members rest of Some (ms, []) \<Rightarrow> Some ms | _ \<Rightarrow> None)
      | [] \<Rightarrow> None)"

fun json_value_valid :: "json_value \<Rightarrow> bool" where
  "json_value_valid (JString s) = utf8_valid s"
| "json_value_valid (JBool b) = True"

lemma read_value_encode:
  assumes "json_value_valid v"
  shows "read_value (json_encode v @ rest) = Some (v, rest)"
proof (cases v)
  case (JString s)
  with assms have "unquote (json_string s @ rest) = Some (s, rest)"
    by (simp add: unquote_json_string)
  with JString show ?thesis by (simp add: read_value_def json_string_def)
next
  case (JBool b)
  then show ?thesis by (cases b) (simp_all add: read_value_def json_bool_def)
qed

lemma read_member_encode:
  assumes "utf8_valid k" and "json_value_valid v"
  shows "read_member (json_string k @ CHR '':'' # json_encode v @ rest) = Some ((k, v), rest)"
  using assms by (simp add: read_member_def unquote_json_string read_value_encode)

lemma read_members_encode:
  assumes "list_all (\<lambda>(k, v). utf8_valid k \<and> json_value_valid v) ms" and "ms \<noteq> []"
  shows "read_members (json_members (map (apsnd json_encode) ms) @ CHR 0x7D # rest) = Some (ms, rest)"
  using assms(2,1)
proof (induction ms rule: list_nonempty_induct)
  case (single m)
  then show ?case
    by (cases m) (simp add: read_members.simps read_member_encode)
next
  case (cons m ms)
  obtain k v where m: "m = (k, v)" by fastforce
  have "json_members (map (apsnd json_encode) (m # ms)) @ CHR 0x7D # rest =
    json_string k @ CHR '':'' # json_encode v @ CHR '','' # json_members (map (apsnd json_encode) ms) @ CHR 0x7D # rest"
    using cons(1) m by (cases ms) simp_all
  with cons m show ?case
    by (simp add: read_members.simps [of "json_string k @ _"] read_member_encode)
qed

lemma read_object_encode:
  assumes "list_all (\<lambda>(k, v). utf8_valid k \<and> json_value_valid v) ms" and "ms \<noteq> []"
  shows "read_object (json_object (map (apsnd json_encode) ms)) = Some ms"
  using read_members_encode [OF assms, of "[]"] by (simp add: read_object_def json_object_def)

end
