(* ===== verification/World.thy ===== *)
theory World
  imports Go_Strings
begin

text \<open>
  The data of \<open>crypto/x509\<close> and \<open>crypto/tls\<close> that the packages share, and the world outside the
  program.

  Everything the program asks of the operating system, of the vendored libraries and of the
  cryptographic libraries is a field of the record \<open>world\<close>. Files, keychains and networks change
  between two calls, so every operation takes the world of the moment it runs; no law is assumed
  of any field.
\<close>


section \<open>Certificates\<close>

type_synonym IP = string

datatype URL = URL (URL_String: string)

record x509_Certificate =
  Raw :: string
  PublicKey :: string
  CommonName :: string
  OrganizationalUnit :: "string list"
  DNSNames :: "string list"
  IPAddresses :: "IP list"
  URIs :: "URL list"

record tls_Certificate =
  Certificate :: "string list"
  PrivateKey :: string
  Leaf :: "x509_Certificate option"

record pem_Block =
  pem_Type :: string
  pem_Bytes :: string

type_synonym CertPool = "string list"


section \<open>Build configurations\<close>

text \<open>
  The build tags that select between two files: \<open>with_pkcs11\<close> for \<open>pkcs11_enabled.go\<close>,
  \<open>with_keychain\<close> for \<open>certstore_enabled.go\<close> and \<open>on_windows\<close> for \<open>windows.go\<close> and
  \<open>fdlimit_windows.go\<close>.
\<close>

record build =
  with_pkcs11 :: bool
  with_keychain :: bool
  on_windows :: bool


section \<open>The outside world\<close>

text \<open>
  \<^item> \<open>os_Open\<close>, \<open>ReadFile\<close>: the file system, as the error of opening a file and the result of
    reading it.
  \<^item> \<open>SystemCertPool\<close>, \<open>AppendCertsFromPEM\<close>, \<open>EncodeToMemory\<close>, \<open>X509KeyPair\<close>,
    \<open>ParseCertificate\<close>: the certificate libraries. \<open>AppendCertsFromPEM\<close> is applied to an empty
    pool only; it is \<open>None\<close> where the Go function returns false.
  \<^item> \<open>ReadAsPEMFromFiles\<close> and \<open>ReadAsX509FromFiles\<close> (package certigo): the sequence of calls of
    the callback and the error that is returned at the end.
  \<^item> \<open>pkcs11key_New\<close> (module path, token label, PIN, public key).
  \<^item> \<open>keychain\<close> (package certstore): the identities of the store, each with the results of
    \<open>CertificateChain\<close> and \<open>Signer\<close>; opening and listing can fail.
  \<^item> \<open>x509_Verify\<close> (roots, host name, presented certificates): the chains that
    \<open>Certificate.Verify\<close> builds; the host name is empty where none is checked.
  \<^item> \<open>ResolveTCPAddr\<close>, \<open>listen_error\<close> and \<open>dial_error\<close>: the network, as the error of resolving,
    binding or dialing an address; \<open>tunnel_error\<close> (proxy, network, address) is that of dialing
    through an HTTP CONNECT proxy (package \<open>http_dialer\<close>).
  \<^item> \<open>syslog_error\<close>: the error of connecting to the system logger (package \<open>gsyslog\<close>).
  \<^item> \<open>Setrlimit\<close> and \<open>Getrlimit\<close>: the limit on open files, current and maximum, as the values
    of unsigned 64-bit numbers.
\<close>

record world =
  os_Open :: "string \<Rightarrow> error option"
  ReadFile :: "string \<Rightarrow> string result"
  SystemCertPool :: "CertPool result"
  AppendCertsFromPEM :: "string \<Rightarrow> CertPool option"
  EncodeToMemory :: "pem_Block \<Rightarrow> string"
  X509KeyPair :: "string \<Rightarrow> string \<Rightarrow> tls_Certificate result"
  ParseCertificate :: "string \<Rightarrow> x509_Certificate result"
  ReadAsPEMFromFiles :: "string \<Rightarrow> string \<Rightarrow> string \<Rightarrow> pem_Block list \<times> error option"
  ReadAsX509FromFiles :: "string \<Rightarrow> string \<Rightarrow> x509_Certificate result list \<times> error option"
  pkcs11key_New :: "string \<Rightarrow> string \<Rightarrow> string \<Rightarrow> string \<Rightarrow> string result"
  certstore_Open :: "error option"
  keychain_Identities :: "(x509_Certificate list result \<times> string result) list result"
  x509_Verify :: "CertPool \<Rightarrow> string \<Rightarrow> string list \<Rightarrow> x509_Certificate list list result"
  ResolveTCPAddr :: "string \<Rightarrow> error option"
  listen_error :: "string \<Rightarrow> string \<Rightarrow> error option"
  dial_error :: "string \<Rightarrow> string \<Rightarrow> error option"
  tunnel_error :: "string \<Rightarrow> string \<Rightarrow> string \<Rightarrow> error option"
  syslog_error :: "error option"
  Setrlimit :: "nat \<Rightarrow> nat \<Rightarrow> error option"
  Getrlimit :: "(nat \<times> nat) result"

end
