(* ===== verification/Certloader.thy ===== *)
theory Certloader
  imports World
begin

text \<open>
  \<open>src/certloader\<close> without its dialer: \<open>certigo.go\<close> (reading files), \<open>keystore.go\<close>,
  \<open>pkcs11_enabled.go\<close>, \<open>pkcs11_disabled.go\<close>, \<open>certstore_enabled.go\<close> and
  \<open>certstore_disabled.go\<close>.

  The pointer \<open>cached\<close>, which is \<open>nil\<close> before the first load, is a \<open>tls_Certificate option\<close>.
  It is stored and loaded atomically, so an operation sees one value of it; \<open>Reload\<close> is a
  function from the world of the moment and the state to the new state and its outcome.

  The interface \<open>Certificate\<close> is the sum of its three implementations. Its contract (a failed
  reload keeps the old state, a successful one serves what was loaded) is the locale
  \<open>reloadable\<close>, which every implementation and the sum itself interpret.
\<close>


section \<open>Reading files\<close>

definition quoted :: "string \<Rightarrow> string" where
  "quoted s = [CHR 0x27] @ s @ [CHR 0x27]"

definition readPEM :: "world \<Rightarrow> string \<Rightarrow> string \<Rightarrow> string \<Rightarrow> pem_Block list result" where
  "readPEM w path password format =
     (case os_Open w path of
        Some err \<Rightarrow> Inl err
      | None \<Rightarrow>
          (case ReadAsPEMFromFiles w path format password of
             (pemBlocks, Some err) \<Rightarrow> Inl (''error reading file '' @ quoted path @ '': '' @ err)
           | (pemBlocks, None) \<Rightarrow>
               if length pemBlocks = 0
               then Inl (''error reading file '' @ quoted path @ '', no certificates found'')
               else Inr pemBlocks))"

fun readX509_callbacks ::
  "x509_Certificate result list \<Rightarrow> error list \<Rightarrow> x509_Certificate list \<Rightarrow> error list \<times> x509_Certificate list" where
  "readX509_callbacks [] errs out = (errs, out)"
| "readX509_callbacks (Inl err # calls) errs out = readX509_callbacks calls (errs @ [err]) out"
| "readX509_callbacks (Inr cert # calls) errs out = readX509_callbacks calls errs (out @ [cert])"

definition readX509 :: "world \<Rightarrow> string \<Rightarrow> x509_Certificate list result" where
  "readX509 w path =
     (case os_Open w path of
        Some err \<Rightarrow> Inl err
      | None \<Rightarrow>
          (case ReadAsX509FromFiles w path ''PEM'' of
             (calls, err) \<Rightarrow>
               (case readX509_callbacks calls [] [] of
                  (errs, out) \<Rightarrow>
                    if err \<noteq> None \<or> length errs > 0 then Inl (''error reading file '' @ quoted path)
                    else if length out = 0 then Inl (''no certificates found in file '' @ quoted path)
                    else Inr out)))"


section \<open>Keystores\<close>

record keystoreCertificate =
  keystorePaths :: "string list"
  keystorePassword :: string
  keystore_format :: string
  keystore_cached :: "tls_Certificate option"

fun keystore_blocks ::
  "world \<Rightarrow> string \<Rightarrow> string \<Rightarrow> string list \<Rightarrow> pem_Block list \<Rightarrow> pem_Block list result" where
  "keystore_blocks w password format [] pemBlocks = Inr pemBlocks"
| "keystore_blocks w password format (path # paths) pemBlocks =
     (case readPEM w path password format of
        Inl err \<Rightarrow> Inl err
      | Inr blocks \<Rightarrow> keystore_blocks w password format paths (pemBlocks @ blocks))"

fun keystore_bytes :: "world \<Rightarrow> pem_Block list \<Rightarrow> string \<Rightarrow> string" where
  "keystore_bytes w [] pemBytes = pemBytes"
| "keystore_bytes w (block # blocks) pemBytes =
     keystore_bytes w blocks (pemBytes @ EncodeToMemory w block)"

definition keystore_Reload ::
  "world \<Rightarrow> keystoreCertificate \<Rightarrow> keystoreCertificate \<times> unit outcome" where
  "keystore_Reload w c =
     (case keystore_blocks w (keystorePassword c) (keystore_format c) (keystorePaths c) [] of
        Inl err \<Rightarrow> (c, Failure err)
      | Inr pemBlocks \<Rightarrow>
          (let pemBytes = keystore_bytes w pemBlocks [] in
           case X509KeyPair w pemBytes pemBytes of
             Inl err \<Rightarrow> (c, Failure err)
           | Inr certAndKey \<Rightarrow>
               (case Certificate certAndKey of
                  [] \<Rightarrow> (c, Panic ''index out of range'')
                | der # _ \<Rightarrow>
                    (case ParseCertificate w der of
                       Inl err \<Rightarrow> (c, Failure err)
                     | Inr leaf \<Rightarrow>
                         (c\<lparr>keystore_cached := Some (certAndKey\<lparr>Leaf := Some leaf\<rparr>)\<rparr>, Value ())))))"

definition keystore_GetCertificate :: "keystoreCertificate \<Rightarrow> tls_Certificate option result" where
  "keystore_GetCertificate c = Inr (keystore_cached c)"

definition keystore_GetClientCertificate :: "keystoreCertificate \<Rightarrow> tls_Certificate option result" where
  "keystore_GetClientCertificate c = Inr (keystore_cached c)"


section \<open>PKCS\#11 modules\<close>

record pkcs11Certificate =
  certificatePath :: string
  modulePath :: string
  tokenLabel :: string
  pkcs11_pin :: string
  pkcs11_cached :: "tls_Certificate option"

fun pkcs11_chain :: "x509_Certificate list \<Rightarrow> tls_Certificate \<Rightarrow> tls_Certificate" where
  "pkcs11_chain [] certAndKey = certAndKey"
| "pkcs11_chain (cert # certs) certAndKey =
     pkcs11_chain certs (certAndKey\<lparr>Certificate := Certificate certAndKey @ [Raw cert]\<rparr>)"

definition pkcs11_Reload :: "world \<Rightarrow> pkcs11Certificate \<Rightarrow> pkcs11Certificate \<times> unit outcome" where
  "pkcs11_Reload w c =
     (case readX509 w (certificatePath c) of
        Inl err \<Rightarrow> (c, Failure err)
      | Inr [] \<Rightarrow> (c, Panic ''index out of range'')
      | Inr (leaf # rest) \<Rightarrow>
          (let certAndKey = pkcs11_chain (leaf # rest)
                 \<lparr>Certificate = [], PrivateKey = [], Leaf = Some leaf\<rparr> in
           case pkcs11_cached c of
             Some old \<Rightarrow>
               (c\<lparr>pkcs11_cached := Some (certAndKey\<lparr>PrivateKey := PrivateKey old\<rparr>)\<rparr>, Value ())
           | None \<Rightarrow>
               (case pkcs11key_New w (modulePath c) (tokenLabel c) (pkcs11_pin c) (PublicKey leaf) of
                  Inl err \<Rightarrow> (c, Failure err)
                | Inr privateKey \<Rightarrow>
                    (c\<lparr>pkcs11_cached := Some (certAndKey\<lparr>PrivateKey := privateKey\<rparr>)\<rparr>, Value ()))))"

definition pkcs11_GetCertificate :: "pkcs11Certificate \<Rightarrow> tls_Certificate option result" where
  "pkcs11_GetCertificate c = Inr (pkcs11_cached c)"

definition pkcs11_GetClientCertificate :: "pkcs11Certificate \<Rightarrow> tls_Certificate option result" where
  "pkcs11_GetClientCertificate c = Inr (pkcs11_cached c)"


section \<open>Keychain identities\<close>

record certstoreCertificate =
  commonName :: string
  certstore_cached :: "tls_Certificate option"

fun serializeChain_loop :: "x509_Certificate list \<Rightarrow> string list \<Rightarrow> string list" where
  "serializeChain_loop [] out = out"
| "serializeChain_loop (cert # chain) out = serializeChain_loop chain (out @ [Raw cert])"

definition serializeChain :: "x509_Certificate list \<Rightarrow> string list" where
  "serializeChain chain = serializeChain_loop chain []"

text \<open>The loop over the identities; a chain without certificates makes \<open>chain[0]\<close> panic.\<close>

fun certstore_search ::
  "string \<Rightarrow> (x509_Certificate list result \<times> string result) list \<Rightarrow> tls_Certificate option outcome" where
  "certstore_search cn [] = Value None"
| "certstore_search cn ((Inl err, signer) # identities) = certstore_search cn identities"
| "certstore_search cn ((Inr chain, Inl err) # identities) = certstore_search cn identities"
| "certstore_search cn ((Inr chain, Inr signer) # identities) =
     (case chain of
        [] \<Rightarrow> Panic ''index out of range''
      | leaf # _ \<Rightarrow>
          if CommonName leaf = cn
          then Value (Some \<lparr>Certificate = serializeChain chain, PrivateKey = signer, Leaf = None\<rparr>)
          else certstore_search cn identities)"

definition certstore_Reload ::
  "world \<Rightarrow> certstoreCertificate \<Rightarrow> certstoreCertificate \<times> unit outcome" where
  "certstore_Reload w c =
     (case certstore_Open w of
        Some err \<Rightarrow> (c, Failure err)
      | None \<Rightarrow>
          (case keychain_Identities w of
             Inl err \<Rightarrow> (c, Failure err)
           | Inr identities \<Rightarrow>
               (case certstore_search (commonName c) identities of
                  Panic p \<Rightarrow> (c, Panic p)
                | Failure err \<Rightarrow> (c, Failure err)
                | Value (Some certAndKey) \<Rightarrow> (c\<lparr>certstore_cached := Some certAndKey\<rparr>, Value ())
                | Value None \<Rightarrow>
                    (c, Failure (''unable to find identity with common name '' @ quoted (commonName c) @
                      '' in keychain'')))))"

definition certstore_GetCertificate :: "certstoreCertificate \<Rightarrow> tls_Certificate option result" where
  "certstore_GetCertificate c = Inr (certstore_cached c)"

definition certstore_GetClientCertificate :: "certstoreCertificate \<Rightarrow> tls_Certificate option result" where
  "certstore_GetClientCertificate c = Inr (certstore_cached c)"


section \<open>The interface and its constructors\<close>

datatype Certificate =
    Keystore keystoreCertificate
  | PKCS11 pkcs11Certificate
  | Certstore certstoreCertificate

fun Reload :: "world \<Rightarrow> Certificate \<Rightarrow> Certificate \<times> unit outcome" where
  "Reload w (Keystore c) = apfst Keystore (keystore_Reload w c)"
| "Reload w (PKCS11 c) = apfst PKCS11 (pkcs11_Reload w c)"
| "Reload w (Certstore c) = apfst Certstore (certstore_Reload w c)"

fun GetCertificate :: "Certificate \<Rightarrow> tls_Certificate option result" where
  "GetCertificate (Keystore c) = keystore_GetCertificate c"
| "GetCertificate (PKCS11 c) = pkcs11_GetCertificate c"
| "GetCertificate (Certstore c) = certstore_GetCertificate c"

fun GetClientCertificate :: "Certificate \<Rightarrow> tls_Certificate option result" where
  "GetClientCertificate (Keystore c) = keystore_GetClientCertificate c"
| "GetClientCertificate (PKCS11 c) = pkcs11_GetClientCertificate c"
| "GetClientCertificate (Certstore c) = certstore_GetClientCertificate c"

definition reload_or_fail :: "('s \<Rightarrow> Certificate) \<Rightarrow> 's \<times> unit outcome \<Rightarrow> Certificate outcome" where
  "reload_or_fail wrap r =
     (case r of
        (c, Value _) \<Rightarrow> Value (wrap c)
      | (c, Failure err) \<Rightarrow> Failure err
      | (c, Panic p) \<Rightarrow> Panic p)"

definition CertificateFromPEMFiles :: "world \<Rightarrow> string \<Rightarrow> string \<Rightarrow> Certificate outcome" where
  "CertificateFromPEMFiles w certPath keyPath =
     reload_or_fail Keystore (keystore_Reload w
       \<lparr>keystorePaths = [certPath, keyPath], keystorePassword = [], keystore_format = ''PEM'',
        keystore_cached = None\<rparr>)"

definition CertificateFromKeystore :: "world \<Rightarrow> string \<Rightarrow> string \<Rightarrow> Certificate outcome" where
  "CertificateFromKeystore w path password =
     reload_or_fail Keystore (keystore_Reload w
       \<lparr>keystorePaths = [path], keystorePassword = password, keystore_format = [],
        keystore_cached = None\<rparr>)"

text \<open>
  The functions that exist in two files, of which the build tags select one.
\<close>

definition SupportsPKCS11_enabled :: bool where
  "SupportsPKCS11_enabled = True"

definition SupportsPKCS11_disabled :: bool where
  "SupportsPKCS11_disabled = False"

definition SupportsPKCS11 :: "build \<Rightarrow> bool" where
  "SupportsPKCS11 b = (if with_pkcs11 b then SupportsPKCS11_enabled else SupportsPKCS11_disabled)"

definition CertificateFromPKCS11Module_enabled ::
  "world \<Rightarrow> string \<Rightarrow> string \<Rightarrow> string \<Rightarrow> string \<Rightarrow> Certificate outcome" where
  "CertificateFromPKCS11Module_enabled w certPath module label pin =
     reload_or_fail PKCS11 (pkcs11_Reload w
       \<lparr>certificatePath = certPath, modulePath = module, tokenLabel = label, pkcs11_pin = pin,
        pkcs11_cached = None\<rparr>)"

definition CertificateFromPKCS11Module_disabled ::
  "string \<Rightarrow> string \<Rightarrow> string \<Rightarrow> string \<Rightarrow> Certificate outcome" where
  "CertificateFromPKCS11Module_disabled certPath module label pin = Failure ''not supported''"

definition CertificateFromPKCS11Module ::
  "build \<Rightarrow> world \<Rightarrow> string \<Rightarrow> string \<Rightarrow> string \<Rightarrow> string \<Rightarrow> Certificate outcome" where
  "CertificateFromPKCS11Module b w certPath module label pin =
     (if with_pkcs11 b then CertificateFromPKCS11Module_enabled w certPath module label pin
      else CertificateFromPKCS11Module_disabled certPath module label pin)"

definition SupportsKeychain_enabled :: bool where
  "SupportsKeychain_enabled = True"

definition SupportsKeychain_disabled :: bool where
  "SupportsKeychain_disabled = False"

definition SupportsKeychain :: "build \<Rightarrow> bool" where
  "SupportsKeychain b = (if with_keychain b then SupportsKeychain_enabled else SupportsKeychain_disabled)"

definition CertificateFromKeychainIdentity_enabled :: "world \<Rightarrow> string \<Rightarrow> Certificate outcome" where
  "CertificateFromKeychainIdentity_enabled w cn =
     reload_or_fail Certstore (certstore_Reload w \<lparr>commonName = cn, certstore_cached = None\<rparr>)"

definition CertificateFromKeychainIdentity_disabled :: "string \<Rightarrow> Certificate outcome" where
  "CertificateFromKeychainIdentity_disabled cn = Failure ''not supported''"

definition CertificateFromKeychainIdentity :: "build \<Rightarrow> world \<Rightarrow> string \<Rightarrow> Certificate outcome" where
  "CertificateFromKeychainIdentity b w cn =
     (if with_keychain b then CertificateFromKeychainIdentity_enabled w cn
      else CertificateFromKeychainIdentity_disabled cn)"

lemmas certloader_builds [simp] =
  SupportsPKCS11_enabled_def SupportsPKCS11_disabled_def CertificateFromPKCS11Module_enabled_def
  CertificateFromPKCS11Module_disabled_def SupportsKeychain_enabled_def SupportsKeychain_disabled_def
  CertificateFromKeychainIdentity_enabled_def CertificateFromKeychainIdentity_disabled_def


section \<open>The loops of the loaders\<close>

lemma readX509_callbacks_eq:
  "readX509_callbacks calls errs out =
   (errs @ map projl (filter isl calls), out @ map projr (filter (Not \<circ> isl) calls))"
  by (induction calls errs out rule: readX509_callbacks.induct) simp_all

lemma keystore_bytes_eq: "keystore_bytes w blocks acc = acc @ concat (map (EncodeToMemory w) blocks)"
  by (induction w blocks acc rule: keystore_bytes.induct) simp_all

lemma pkcs11_chain_eq:
  "pkcs11_chain certs ck = ck\<lparr>Certificate := Certificate ck @ map Raw certs\<rparr>"
  by (induction certs ck rule: pkcs11_chain.induct) simp_all

lemma serializeChain_loop_eq: "serializeChain_loop chain out = out @ map Raw chain"
  by (induction chain out rule: serializeChain_loop.induct) simp_all

lemma serializeChain_eq [simp]: "serializeChain chain = map Raw chain"
  by (simp add: serializeChain_def serializeChain_loop_eq)

lemma keystore_blocks_Inr:
  "keystore_blocks w password format paths acc = Inr blocks \<longleftrightarrow>
   (\<exists>bss. list_all2 (\<lambda>path bs. readPEM w path password format = Inr bs) paths bss \<and>
          blocks = acc @ concat bss)"
proof (induction paths arbitrary: acc)
  case (Cons path paths)
  show ?case
    by (cases "readPEM w path password format") (auto simp: Cons.IH list_all2_Cons1)
qed auto

lemma readPEM_not_Nil: "readPEM w path password format = Inr blocks \<Longrightarrow> blocks \<noteq> []"
  by (auto simp: readPEM_def split: option.splits prod.splits if_splits)

lemma readX509_not_Nil [simp]: "readX509 w path \<noteq> Inr []"
  by (auto simp: readX509_def split: option.splits prod.splits if_splits)


section \<open>The contract of a reloadable certificate\<close>

text \<open>
  The comments of the interface: after a successful reload the new certificate is served, after
  a failed one the old state is kept. The law \<open>history_free\<close> says in addition that once a
  certificate is loaded, what a reload does depends on the world it runs in and not on the
  reloads before it.
\<close>

fun succeeded :: "'a outcome \<Rightarrow> bool" where
  "succeeded (Value x) = True"
| "succeeded (Failure err) = False"
| "succeeded (Panic p) = False"

lemma succeeded_iff: "succeeded r \<longleftrightarrow> (\<exists>x. r = Value x)"
  by (cases r) simp_all

fun reloads :: "(world \<Rightarrow> 's \<Rightarrow> 's \<times> unit outcome) \<Rightarrow> world list \<Rightarrow> 's \<Rightarrow> 's" where
  "reloads reload [] s = s"
| "reloads reload (w # ws) s = reloads reload ws (fst (reload w s))"

lemma reloads_append [simp]: "reloads reload (ws @ vs) s = reloads reload vs (reloads reload ws s)"
  by (induction ws arbitrary: s) simp_all

locale reloadable =
  fixes reload :: "world \<Rightarrow> 's \<Rightarrow> 's \<times> unit outcome"
    and served :: "'s \<Rightarrow> tls_Certificate option"
  assumes failure_keeps: "\<not> succeeded (snd (reload w s)) \<Longrightarrow> fst (reload w s) = s"
    and success_serves: "succeeded (snd (reload w s)) \<Longrightarrow> served (fst (reload w s)) \<noteq> None"
    and history_free: "served s \<noteq> None \<Longrightarrow>
      succeeded (snd (reload w (fst (reload v s)))) = succeeded (snd (reload w s)) \<and>
      (succeeded (snd (reload w s)) \<longrightarrow>
        served (fst (reload w (fst (reload v s)))) = served (fst (reload w s)))"
begin

lemma stays_loaded: "served s \<noteq> None \<Longrightarrow> served (fst (reload w s)) \<noteq> None"
  using failure_keeps [of w s] success_serves [of w s] by (cases "succeeded (snd (reload w s))") simp_all

lemma stays_loaded_all:
  "served s \<noteq> None \<Longrightarrow> served (reloads reload ws s) \<noteq> None"
proof (induction ws arbitrary: s)
  case (Cons w ws)
  then show ?case by (simp add: stays_loaded del: not_None_eq)
qed simp

lemma history_free_all:
  "served s \<noteq> None \<Longrightarrow>
   succeeded (snd (reload w (reloads reload ws s))) = succeeded (snd (reload w s)) \<and>
   (succeeded (snd (reload w s)) \<longrightarrow>
     served (fst (reload w (reloads reload ws s))) = served (fst (reload w s)))"
proof (induction ws arbitrary: s)
  case (Cons v ws)
  from Cons.prems have "served (fst (reload v s)) \<noteq> None"
    by (rule stays_loaded)
  from Cons.IH [OF this] history_free [OF Cons.prems] show ?case
    by auto
qed simp

lemma serves_last_good:
  assumes "served s \<noteq> None"
  shows "served (reloads reload ws s) =
    fold (\<lambda>w c. if succeeded (snd (reload w s)) then served (fst (reload w s)) else c) ws (served s)"
proof (induction ws rule: rev_induct)
  case (snoc w ws)
  then show ?case
    using history_free_all [OF assms, of w ws]
      failure_keeps [of w "reloads reload ws s"] by auto
qed simp

end

interpretation keystore: reloadable keystore_Reload keystore_cached
  by unfold_locales
    (auto simp: keystore_Reload_def Let_def split: sum.splits list.splits)

lemma pkcs11_Reload_loaded:
  assumes "pkcs11_cached c = Some old"
  shows "pkcs11_Reload w c =
    (case readX509 w (certificatePath c) of
       Inl err \<Rightarrow> (c, Failure err)
     | Inr certs \<Rightarrow> (c\<lparr>pkcs11_cached := Some \<lparr>Certificate = map Raw certs, PrivateKey = PrivateKey old,
         Leaf = Some (hd certs)\<rparr>\<rparr>, Value ()))"
  using assms by (auto simp: pkcs11_Reload_def pkcs11_chain_eq split: sum.splits list.splits)

interpretation pkcs11: reloadable pkcs11_Reload pkcs11_cached
proof
  fix w s
  show "\<not> succeeded (snd (pkcs11_Reload w s)) \<Longrightarrow> fst (pkcs11_Reload w s) = s"
    by (auto simp: pkcs11_Reload_def Let_def split: sum.splits list.splits option.splits)
  show "succeeded (snd (pkcs11_Reload w s)) \<Longrightarrow> pkcs11_cached (fst (pkcs11_Reload w s)) \<noteq> None"
    by (auto simp: pkcs11_Reload_def Let_def split: sum.splits list.splits option.splits)
next
  fix w v and s :: pkcs11Certificate assume "pkcs11_cached s \<noteq> None"
  then obtain old where "pkcs11_cached s = Some old" by blast
  then show "succeeded (snd (pkcs11_Reload w (fst (pkcs11_Reload v s)))) = succeeded (snd (pkcs11_Reload w s)) \<and>
    (succeeded (snd (pkcs11_Reload w s)) \<longrightarrow>
      pkcs11_cached (fst (pkcs11_Reload w (fst (pkcs11_Reload v s)))) =
      pkcs11_cached (fst (pkcs11_Reload w s)))"
    by (auto simp: pkcs11_Reload_loaded split: sum.splits)
qed

interpretation certstore: reloadable certstore_Reload certstore_cached
  by unfold_locales
    (auto simp: certstore_Reload_def split: sum.splits option.splits outcome.splits)

fun cached :: "Certificate \<Rightarrow> tls_Certificate option" where
  "cached (Keystore c) = keystore_cached c"
| "cached (PKCS11 c) = pkcs11_cached c"
| "cached (Certstore c) = certstore_cached c"

lemmas get_certificate_defs =
  keystore_GetCertificate_def keystore_GetClientCertificate_def pkcs11_GetCertificate_def
  pkcs11_GetClientCertificate_def certstore_GetCertificate_def certstore_GetClientCertificate_def

lemma GetCertificate_cached [simp]:
  "GetCertificate c = Inr (cached c)" "GetClientCertificate c = Inr (cached c)"
  by (cases c; simp add: get_certificate_defs)+

interpretation certificate: reloadable Reload cached
proof
  fix w s
  show "\<not> succeeded (snd (Reload w s)) \<Longrightarrow> fst (Reload w s) = s"
    by (cases s) (simp_all add: keystore.failure_keeps pkcs11.failure_keeps certstore.failure_keeps)
  show "succeeded (snd (Reload w s)) \<Longrightarrow> cached (fst (Reload w s)) \<noteq> None"
    using keystore.success_serves pkcs11.success_serves certstore.success_serves by (cases s) simp_all
next
  fix w v s assume "cached s \<noteq> None"
  then show "succeeded (snd (Reload w (fst (Reload v s)))) = succeeded (snd (Reload w s)) \<and>
    (succeeded (snd (Reload w s)) \<longrightarrow>
      cached (fst (Reload w (fst (Reload v s)))) = cached (fst (Reload w s)))"
    using keystore.history_free pkcs11.history_free certstore.history_free by (cases s) simp_all
qed


section \<open>Properties\<close>

text \<open>A world for the witnesses: one keystore file, a key pair that loads, one identity.\<close>

definition der_leaf :: x509_Certificate where
  "der_leaf = \<lparr>Raw = ''der'', PublicKey = ''pub'', CommonName = ''server'', OrganizationalUnit = [],
     DNSNames = [], IPAddresses = [], URIs = []\<rparr>"

definition sample_world :: world where
  "sample_world = \<lparr>os_Open = (\<lambda>path. if path = ''server.p12'' then None else Some ''no such file''),
     ReadFile = (\<lambda>path. if path = ''ca.pem'' then Inr ''bundle'' else Inl ''no such file''),
     SystemCertPool = Inr [''system''], AppendCertsFromPEM = (\<lambda>bytes. Some [bytes]), EncodeToMemory = pem_Bytes,
     X509KeyPair = (\<lambda>cert key. Inr \<lparr>Certificate = [cert], PrivateKey = key, Leaf = None\<rparr>),
     ParseCertificate = (\<lambda>der. Inr (der_leaf\<lparr>Raw := der\<rparr>)),
     ReadAsPEMFromFiles = (\<lambda>path format password. ([\<lparr>pem_Type = ''CERTIFICATE'', pem_Bytes = ''der''\<rparr>], None)),
     ReadAsX509FromFiles = (\<lambda>path format. ([Inr der_leaf], None)),
     pkcs11key_New = (\<lambda>module label pin public. Inr ''hsm key''), certstore_Open = None,
     keychain_Identities = Inr [(Inl ''locked'', Inr ''k''), (Inr [der_leaf], Inr ''signer'')],
     x509_Verify = (\<lambda>roots host certs. Inr [map (\<lambda>der. der_leaf\<lparr>Raw := der\<rparr>) certs]),
     ResolveTCPAddr = (\<lambda>addr. None), listen_error = (\<lambda>network addr. None), dial_error = (\<lambda>network addr. None),
     tunnel_error = (\<lambda>proxy network addr. None), syslog_error = None, Setrlimit = (\<lambda>current maximum. None),
     Getrlimit = Inr (1024, 4096)\<rparr>"

definition broken_world :: world where
  "broken_world = sample_world\<lparr>os_Open := \<lambda>path. Some ''no such file'', certstore_Open := Some ''locked''\<rparr>"

lemmas sample_worlds = sample_world_def broken_world_def der_leaf_def

text \<open>
  C12. However often a loaded certificate is reloaded, and whatever the outcomes, it serves the
  certificate of the last reload that succeeded, or the first one if none did: failed reloads
  leave no trace, and what a successful reload loads does not depend on the reloads before it.
\<close>

theorem Reload_serves_last_good:
  assumes "GetCertificate c \<noteq> Inr None"
  shows "GetCertificate (reloads Reload ws c) =
    fold (\<lambda>w current. if succeeded (snd (Reload w c)) then GetCertificate (fst (Reload w c)) else current)
      ws (GetCertificate c)"
proof -
  have "fold (\<lambda>w current. if succeeded (snd (Reload w c)) then GetCertificate (fst (Reload w c)) else current) ws (Inr x) =
    Inr (fold (\<lambda>w current. if succeeded (snd (Reload w c)) then cached (fst (Reload w c)) else current) ws x)" for x
    by (induction ws arbitrary: x) auto
  then show ?thesis
    using assms certificate.serves_last_good [of c ws] by simp
qed

theorem Reload_serves_last_good_witness:
  "GetCertificate (reloads Reload [broken_world]
     (Certstore \<lparr>commonName = ''server'', certstore_cached = Some \<lparr>Certificate = [], PrivateKey = ''old'', Leaf = None\<rparr>\<rparr>)) =
   Inr (Some \<lparr>Certificate = [], PrivateKey = ''old'', Leaf = None\<rparr>)"
  by (subst Reload_serves_last_good) (simp_all add: get_certificate_defs certstore_Reload_def sample_worlds)

text \<open>
  Both callbacks of the interface return the same certificate, without an error, and once a
  certificate has been loaded no sequence of reloads makes either of them return nil.
\<close>

theorem loaded_certificate_never_nil:
  assumes "GetCertificate c \<noteq> Inr None"
  shows "GetCertificate (reloads Reload ws c) \<noteq> Inr None \<and> \<not> is_error (GetCertificate (reloads Reload ws c)) \<and>
    GetClientCertificate (reloads Reload ws c) = GetCertificate (reloads Reload ws c)"
  using assms certificate.stays_loaded_all [of c ws] by simp

theorem loaded_certificate_never_nil_witness:
  "GetClientCertificate (reloads Reload [broken_world, sample_world, broken_world]
     (Certstore \<lparr>commonName = ''server'', certstore_cached = Some \<lparr>Certificate = [], PrivateKey = ''old'', Leaf = None\<rparr>\<rparr>))
   \<noteq> Inr None"
  using loaded_certificate_never_nil
    [of "Certstore \<lparr>commonName = ''server'', certstore_cached = Some \<lparr>Certificate = [], PrivateKey = ''old'', Leaf = None\<rparr>\<rparr>"
      "[broken_world, sample_world, broken_world]"]
  by simp

text \<open>
  Reloading a keystore succeeds exactly when every file can be read, the concatenated PEM
  blocks of all files (in the order of the paths) parse as certificate and key, and the first
  certificate of the chain parses as the leaf; then that pair with that leaf is served.
\<close>

theorem keystore_Reload_iff:
  "keystore_Reload w c = (c', Value ()) \<longleftrightarrow>
   (\<exists>bss pair leaf.
      list_all2 (\<lambda>path bs. readPEM w path (keystorePassword c) (keystore_format c) = Inr bs) (keystorePaths c) bss \<and>
      (let bytes = concat (map (EncodeToMemory w) (concat bss)) in X509KeyPair w bytes bytes = Inr pair) \<and>
      Certificate pair \<noteq> [] \<and> ParseCertificate w (hd (Certificate pair)) = Inr leaf \<and>
      c' = c\<lparr>keystore_cached := Some (pair\<lparr>Leaf := Some leaf\<rparr>)\<rparr>)"
  (is "?l \<longleftrightarrow> (\<exists>bss pair leaf. ?r bss pair leaf)")
proof (cases "keystore_blocks w (keystorePassword c) (keystore_format c) (keystorePaths c) []")
  case (Inl err)
  then have "\<nexists>bss. list_all2 (\<lambda>path bs. readPEM w path (keystorePassword c) (keystore_format c) = Inr bs) (keystorePaths c) bss"
    using keystore_blocks_Inr [of w "keystorePassword c" "keystore_format c" "keystorePaths c" "[]"] by auto
  with Inl show ?thesis by (auto simp: keystore_Reload_def)
next
  case (Inr blocks)
  have eq: "list_all2 (\<lambda>path bs. readPEM w path (keystorePassword c) (keystore_format c) = Inr bs) (keystorePaths c) bss
      \<Longrightarrow> concat bss = blocks" for bss
    using Inr keystore_blocks_Inr [of w "keystorePassword c" "keystore_format c" "keystorePaths c" "[]" "concat bss"]
    by auto
  obtain bss where bss: "list_all2 (\<lambda>path bs. readPEM w path (keystorePassword c) (keystore_format c) = Inr bs)
      (keystorePaths c) bss"
    using Inr by (auto simp: keystore_blocks_Inr)
  have "(\<exists>bss pair leaf. ?r bss pair leaf) \<longleftrightarrow> (\<exists>pair leaf. ?r bss pair leaf)"
    using bss eq by fastforce
  also have "\<dots> \<longleftrightarrow> ?l"
    using Inr eq [OF bss] bss
    by (auto simp: keystore_Reload_def keystore_bytes_eq Let_def split: sum.splits list.splits)
  finally show ?thesis by simp
qed

text \<open>
  The private key in a PKCS\#11 module is opened once: however often the certificate chain is
  reloaded afterwards, the key in use is the one of the first load.
\<close>

theorem pkcs11_key_is_fixed:
  assumes "pkcs11_cached c = Some first"
  shows "\<exists>current. pkcs11_cached (reloads pkcs11_Reload ws c) = Some current \<and>
    PrivateKey current = PrivateKey first"
  using assms
proof (induction ws arbitrary: c first)
  case (Cons w ws)
  obtain next_cert where "pkcs11_cached (fst (pkcs11_Reload w c)) = Some next_cert"
      and "PrivateKey next_cert = PrivateKey first"
    using Cons.prems by (cases "readX509 w (certificatePath c)") (auto simp: pkcs11_Reload_loaded)
  with Cons.IH show ?case by fastforce
qed simp

theorem pkcs11_key_is_fixed_witness:
  "\<exists>current. pkcs11_cached (reloads pkcs11_Reload [sample_world, broken_world]
     \<lparr>certificatePath = ''server.p12'', modulePath = ''hsm.so'', tokenLabel = ''l'', pkcs11_pin = ''1'',
      pkcs11_cached = Some \<lparr>Certificate = [], PrivateKey = ''first'', Leaf = None\<rparr>\<rparr>) = Some current \<and>
   PrivateKey current = ''first''"
  using pkcs11_key_is_fixed [OF pkcs11Certificate.select_convs(5)] by fastforce

text \<open>An identity of the keychain that the search skips, and one that it serves.\<close>

fun identity_skipped :: "string \<Rightarrow> x509_Certificate list result \<times> string result \<Rightarrow> bool" where
  "identity_skipped cn (Inr (leaf # chain), Inr signer) = (CommonName leaf \<noteq> cn)"
| "identity_skipped cn (Inr [], Inr signer) = False"
| "identity_skipped cn _ = True"

fun identity_served ::
  "string \<Rightarrow> tls_Certificate \<Rightarrow> x509_Certificate list result \<times> string result \<Rightarrow> bool" where
  "identity_served cn pair (Inr (leaf # chain), Inr signer) =
     (CommonName leaf = cn \<and>
      pair = \<lparr>Certificate = map Raw (leaf # chain), PrivateKey = signer, Leaf = None\<rparr>)"
| "identity_served cn pair _ = False"

text \<open>
  The keychain loader serves the first usable identity (chain and signer can be read) whose
  leaf has the requested common name, with the whole chain and its signer; it succeeds in no
  other case.
\<close>

theorem certstore_search_first_match:
  "certstore_search cn identities = Value (Some pair) \<longleftrightarrow>
   (\<exists>before identity after. identities = before @ identity # after \<and>
      list_all (identity_skipped cn) before \<and> identity_served cn pair identity)"
proof (induction cn identities rule: certstore_search.induct)
  case (2 cn err signer identities)
  then show ?case unfolding first_match_Cons by simp
next
  case (3 cn chain err identities)
  then show ?case unfolding first_match_Cons by simp
next
  case (4 cn chain signer identities)
  then show ?case
    unfolding first_match_Cons by (cases chain) auto
qed simp

end
