(* ===== verification/Flags.thy ===== *)
theory Flags
  imports Certloader "HOL-Library.Word"
begin

text \<open>
  The flags of the command line (\<open>src/main.go\<close>, \<open>src/unix.go\<close>).

  The package \<open>kingpin\<close> parses the command line and stores the values behind the flag
  variables; the record \<open>flags\<close> is the content of those variables after parsing, under the
  names of the source. Flags that exist in some builds only are pointers: \<open>None\<close> is a nil
  pointer. \<open>init_flags\<close> is what \<open>init\<close> decides: which of them exist. A duration is a number
  of nanoseconds.
\<close>

record connect_URL =
  Scheme :: string
  connect_String :: string

record flags =
  keychainIdentity :: "string option"
  pkcs11Module :: "string option"
  pkcs11TokenLabel :: "string option"
  pkcs11PIN :: "string option"
  serverListenAddress :: string
  serverForwardAddress :: string
  serverProxyProtocol :: bool
  serverUnsafeTarget :: bool
  serverAllowAll :: bool
  serverAllowedCNs :: "string list"
  serverAllowedOUs :: "string list"
  serverAllowedDNSs :: "string list"
  serverAllowedIPs :: "IP list"
  serverAllowedURIs :: "string list"
  serverDisableAuth :: bool
  clientListenAddress :: string
  clientForwardAddress :: string
  clientUnsafeListen :: bool
  clientServerName :: string
  clientConnectProxy :: "connect_URL option"
  clientAllowedCNs :: "string list"
  clientAllowedOUs :: "string list"
  clientAllowedDNSs :: "string list"
  clientAllowedIPs :: "IP list"
  clientAllowedURIs :: "string list"
  clientDisableAuth :: bool
  keystorePath :: string
  keystorePass :: string
  caBundlePath :: string
  enabledCipherSuites :: string
  timedReload :: int
  shutdownTimeout :: int
  timeoutDuration :: int
  metricsGraphite :: "string option"
  metricsURL :: string
  metricsPrefix :: string
  metricsInterval :: int
  statusAddress :: string
  enableProf :: bool
  fdLimit :: "64 word"
  syslogFlag :: bool

text \<open>
  A pointer returned by \<open>String()\<close> is never nil; a flag that was not given holds the empty
  string. A flag that is not registered leaves the variable nil.
\<close>

definition registered :: "string option \<Rightarrow> string option" where
  "registered v = Some (case v of None \<Rightarrow> [] | Some s \<Rightarrow> s)"

definition init_flags :: "build \<Rightarrow> flags \<Rightarrow> flags" where
  "init_flags b f =
     (let f = (if SupportsKeychain b then f\<lparr>keychainIdentity := registered (keychainIdentity f)\<rparr>
               else f\<lparr>keychainIdentity := None\<rparr>) in
      if SupportsPKCS11 b
      then f\<lparr>pkcs11Module := registered (pkcs11Module f), pkcs11TokenLabel := registered (pkcs11TokenLabel f),
             pkcs11PIN := registered (pkcs11PIN f)\<rparr>
      else f\<lparr>pkcs11Module := None, pkcs11TokenLabel := None, pkcs11PIN := None\<rparr>)"

definition second :: int where
  "second = 1000000000"

definition defaultMetricsPrefix :: string where
  "defaultMetricsPrefix = ''ghostunnel''"

text \<open>The values of the flags when nothing is given on the command line.\<close>

definition default_flags :: flags where
  "default_flags =
     \<lparr>keychainIdentity = None, pkcs11Module = None, pkcs11TokenLabel = None, pkcs11PIN = None,
      serverListenAddress = [], serverForwardAddress = [], serverProxyProtocol = False,
      serverUnsafeTarget = False, serverAllowAll = False, serverAllowedCNs = [], serverAllowedOUs = [],
      serverAllowedDNSs = [], serverAllowedIPs = [], serverAllowedURIs = [], serverDisableAuth = False,
      clientListenAddress = [], clientForwardAddress = [], clientUnsafeListen = False,
      clientServerName = [], clientConnectProxy = None, clientAllowedCNs = [], clientAllowedOUs = [],
      clientAllowedDNSs = [], clientAllowedIPs = [], clientAllowedURIs = [], clientDisableAuth = False,
      keystorePath = [], keystorePass = [], caBundlePath = [], enabledCipherSuites = ''AES,CHACHA'',
      timedReload = 0, shutdownTimeout = 5 * 60 * second, timeoutDuration = 10 * second,
      metricsGraphite = None, metricsURL = [], metricsPrefix = defaultMetricsPrefix,
      metricsInterval = 30 * second, statusAddress = [], enableProf = False, fdLimit = 0,
      syslogFlag = False\<rparr>"

text \<open>\<open>pkcs11Module != nil && *pkcs11Module != ""\<close>, and the same for the keychain flag.\<close>

definition hasPKCS11 :: "flags \<Rightarrow> bool" where
  "hasPKCS11 f \<longleftrightarrow> (case pkcs11Module f of None \<Rightarrow> False | Some m \<Rightarrow> m \<noteq> [])"

definition hasKeychainIdentity :: "flags \<Rightarrow> bool" where
  "hasKeychainIdentity f \<longleftrightarrow> (case keychainIdentity f of None \<Rightarrow> False | Some i \<Rightarrow> i \<noteq> [])"

definition useSyslog_unix :: "flags \<Rightarrow> bool" where
  "useSyslog_unix f = syslogFlag f"

definition useSyslog_windows :: bool where
  "useSyslog_windows = False"

definition useSyslog :: "build \<Rightarrow> flags \<Rightarrow> bool" where
  "useSyslog b f = (if on_windows b then useSyslog_windows else useSyslog_unix f)"

lemmas useSyslog_builds [simp] = useSyslog_unix_def useSyslog_windows_def

lemma hasPKCS11_init:
  "hasPKCS11 (init_flags b f) \<longleftrightarrow> with_pkcs11 b \<and> hasPKCS11 f"
  by (auto simp: init_flags_def hasPKCS11_def registered_def SupportsPKCS11_def Let_def split: option.splits)

lemma hasKeychainIdentity_init:
  "hasKeychainIdentity (init_flags b f) \<longleftrightarrow> with_keychain b \<and> hasKeychainIdentity f"
  by (auto simp: init_flags_def hasKeychainIdentity_def registered_def SupportsKeychain_def Let_def split: option.splits)

end
