(* ===== verification/Go_Regexp.thy ===== *)
theory Go_Regexp
  imports Go_Strings
begin

text \<open>
  The part of Go's \<open>regexp\<close> package that \<open>wildcard/matcher.go\<close> uses: \<open>QuoteMeta\<close>,
  \<open>Compile\<close> and \<open>Match\<close>.

  \<open>Compile\<close> parses with the Perl flags, so \<open>^\<close> and \<open>$\<close> are the ends of the text, a dot
  excludes the newline and a negated class includes it. The parser keeps Go's shape: one pass
  over the runes with a stack of open groups. Constructs the program cannot generate with an
  ordinary separator (counted repetition, Perl groups and classes, POSIX classes) end in
  \<open>Unsupported\<close>, a value of its own, so that no theorem can confuse them with a parse error.

  \<open>Match\<close> is an unanchored search. It is defined by Brzozowski derivatives with two flags for
  the positions of the anchors, and proved to agree with the declarative \<open>matches_at\<close>.
\<close>


section \<open>Regular expressions and their meaning\<close>

datatype runeset = One rune | AnyNotNL | Class bool "(rune \<times> rune) list"

fun in_runeset :: "runeset \<Rightarrow> rune \<Rightarrow> bool" where
  "in_runeset (One r) c \<longleftrightarrow> c = r"
| "in_runeset AnyNotNL c \<longleftrightarrow> c \<noteq> 10"
| "in_runeset (Class negated ranges) c \<longleftrightarrow>
     negated \<noteq> (\<exists>(lo, hi) \<in> set ranges. lo \<le> c \<and> c \<le> hi)"

datatype regex =
    RNone
  | REmpty
  | RBegin
  | REnd
  | RRune runeset
  | RCat regex regex
  | RAlt regex regex
  | RStar regex
  | RPlus regex
  | RQuest regex

text \<open>
  \<open>matches_at r b u e\<close>: the runes \<open>u\<close> are a match of \<open>r\<close> at a place of the text that is its
  beginning if \<open>b\<close>, and whose end is the end of the text if \<open>e\<close>.
\<close>

inductive matches_at :: "regex \<Rightarrow> bool \<Rightarrow> rune list \<Rightarrow> bool \<Rightarrow> bool" where
  empty: "matches_at REmpty b [] e"
| begin_text: "matches_at RBegin True [] e"
| end_text: "matches_at REnd b [] True"
| rune: "in_runeset s c \<Longrightarrow> matches_at (RRune s) b [c] e"
| cat: "matches_at r b u (e \<and> v = []) \<Longrightarrow> matches_at s (b \<and> u = []) v e \<Longrightarrow>
    matches_at (RCat r s) b (u @ v) e"
| alt1: "matches_at r b u e \<Longrightarrow> matches_at (RAlt r s) b u e"
| alt2: "matches_at s b u e \<Longrightarrow> matches_at (RAlt r s) b u e"
| star0: "matches_at (RStar r) b [] e"
| star: "matches_at r b u (e \<and> v = []) \<Longrightarrow> matches_at (RStar r) (b \<and> u = []) v e \<Longrightarrow>
    matches_at (RStar r) b (u @ v) e"
| plus: "matches_at r b u (e \<and> v = []) \<Longrightarrow> matches_at (RStar r) (b \<and> u = []) v e \<Longrightarrow>
    matches_at (RPlus r) b (u @ v) e"
| quest0: "matches_at (RQuest r) b [] e"
| quest: "matches_at r b u e \<Longrightarrow> matches_at (RQuest r) b u e"

inductive_simps matches_at_simps [simp]:
  "matches_at RNone b u e"
  "matches_at REmpty b u e"
  "matches_at RBegin b u e"
  "matches_at REnd b u e"
  "matches_at (RRune s) b u e"
  "matches_at (RAlt r s) b u e"
  "matches_at (RQuest r) b u e"

inductive_simps matches_at_cat: "matches_at (RCat r s) b u e"
inductive_simps matches_at_plus: "matches_at (RPlus r) b u e"

inductive_cases matches_at_starE: "matches_at (RStar r) b u e"


section \<open>Search by derivatives\<close>

fun nullable :: "bool \<Rightarrow> bool \<Rightarrow> regex \<Rightarrow> bool" where
  "nullable b e RNone \<longleftrightarrow> False"
| "nullable b e REmpty \<longleftrightarrow> True"
| "nullable b e RBegin \<longleftrightarrow> b"
| "nullable b e REnd \<longleftrightarrow> e"
| "nullable b e (RRune s) \<longleftrightarrow> False"
| "nullable b e (RCat r s) \<longleftrightarrow> nullable b e r \<and> nullable b e s"
| "nullable b e (RAlt r s) \<longleftrightarrow> nullable b e r \<or> nullable b e s"
| "nullable b e (RStar r) \<longleftrightarrow> True"
| "nullable b e (RPlus r) \<longleftrightarrow> nullable b e r"
| "nullable b e (RQuest r) \<longleftrightarrow> True"

fun deriv :: "bool \<Rightarrow> rune \<Rightarrow> regex \<Rightarrow> regex" where
  "deriv b c RNone = RNone"
| "deriv b c REmpty = RNone"
| "deriv b c RBegin = RNone"
| "deriv b c REnd = RNone"
| "deriv b c (RRune s) = (if in_runeset s c then REmpty else RNone)"
| "deriv b c (RCat r s) =
     (if nullable b False r then RAlt (RCat (deriv b c r) s) (deriv b c s)
      else RCat (deriv b c r) s)"
| "deriv b c (RAlt r s) = RAlt (deriv b c r) (deriv b c s)"
| "deriv b c (RStar r) = RCat (deriv b c r) (RStar r)"
| "deriv b c (RPlus r) = RCat (deriv b c r) (RStar r)"
| "deriv b c (RQuest r) = deriv b c r"

fun match_prefix :: "bool \<Rightarrow> regex \<Rightarrow> rune list \<Rightarrow> bool" where
  "match_prefix b r [] \<longleftrightarrow> nullable b True r"
| "match_prefix b r (c # w) \<longleftrightarrow> nullable b False r \<or> match_prefix False (deriv b c r) w"

fun search_from :: "bool \<Rightarrow> regex \<Rightarrow> rune list \<Rightarrow> bool" where
  "search_from b r [] \<longleftrightarrow> match_prefix b r []"
| "search_from b r (c # w) \<longleftrightarrow> match_prefix b r (c # w) \<or> search_from False r w"

definition search :: "regex \<Rightarrow> rune list \<Rightarrow> bool" where
  "search r w = search_from True r w"

lemma matches_at_star_Cons:
  "matches_at (RStar r) b (c # u) e \<longleftrightarrow>
   (\<exists>v w. u = v @ w \<and> matches_at r b (c # v) (e \<and> w = []) \<and> matches_at (RStar r) False w e)"
proof
  assume "matches_at (RStar r) b (c # u) e"
  then show "\<exists>v w. u = v @ w \<and> matches_at r b (c # v) (e \<and> w = []) \<and> matches_at (RStar r) False w e"
  proof (induction "RStar r" b "c # u" e arbitrary: u rule: matches_at.induct)
    case (star b u' e v)
    then show ?case
      by (cases u') auto
  qed
next
  assume "\<exists>v w. u = v @ w \<and> matches_at r b (c # v) (e \<and> w = []) \<and> matches_at (RStar r) False w e"
  then show "matches_at (RStar r) b (c # u) e"
    using matches_at.star [of r b "c # _"] by fastforce
qed

lemma nullable_iff: "nullable b e r \<longleftrightarrow> matches_at r b [] e"
proof (induction r arbitrary: b e)
  case (RStar r)
  then show ?case by (simp add: matches_at.star0)
qed (auto simp: matches_at_cat matches_at_plus matches_at.star0)

lemma deriv_iff: "matches_at (deriv b c r) False u e \<longleftrightarrow> matches_at r b (c # u) e"
proof (induction r arbitrary: b u e)
  case (RCat r s)
  then show ?case
    by (auto simp: matches_at_cat nullable_iff ex_append_Cons)
next
  case (RStar r)
  then show ?case
    by (auto simp: matches_at_star_Cons matches_at_cat)
next
  case (RPlus r)
  then show ?case
    by (auto simp: matches_at_plus matches_at_cat matches_at_star_Cons ex_append_Cons)
qed auto

lemma match_prefix_iff:
  "match_prefix b r w \<longleftrightarrow> (\<exists>u v. w = u @ v \<and> matches_at r b u (v = []))"
proof (induction w arbitrary: b r)
  case Nil
  then show ?case by (simp add: nullable_iff)
next
  case (Cons c w)
  then show ?case
    by (simp add: nullable_iff deriv_iff ex_append_Cons)
qed

text \<open>The search finds a match exactly when some substring of the text is one.\<close>

lemma search_from_iff:
  "search_from b r w \<longleftrightarrow> (\<exists>p q. w = p @ q \<and> match_prefix (b \<and> p = []) r q)"
proof (induction w arbitrary: b)
  case (Cons c w)
  then show ?case
    by (simp add: ex_append_Cons del: match_prefix.simps)
qed simp

lemma search_iff:
  "search r w \<longleftrightarrow> (\<exists>p u v. w = p @ u @ v \<and> matches_at r (p = []) u (v = []))"
  unfolding search_def search_from_iff match_prefix_iff by auto


section \<open>Package regexp: QuoteMeta, Compile, Match\<close>

text \<open>The bytes that \<open>QuoteMeta\<close> escapes, as characters and as runes.\<close>

definition special :: "string" where
  "special = [CHR 0x5C] @ ''.+*?()|[]{}^$''"

fun QuoteMeta :: "string \<Rightarrow> string" where
  "QuoteMeta [] = []"
| "QuoteMeta (c # s) = (if c \<in> set special then [CHR 0x5C, c] else [c]) @ QuoteMeta s"

definition is_alnum :: "rune \<Rightarrow> bool" where
  "is_alnum c \<longleftrightarrow> 48 \<le> c \<and> c \<le> 57 \<or> 65 \<le> c \<and> c \<le> 90 \<or> 97 \<le> c \<and> c \<le> 122"

datatype 'a parse = Parsed 'a | ParseError | Unsupported

text \<open>
  The body of a bracket expression, after \<open>[\<close> or \<open>[^\<close>: single runes and ranges up to the
  closing bracket, which is an ordinary member in the first position. The result is the ranges
  and the runes behind the bracket. A backslash must escape an ASCII character that is not
  alphanumeric, and \<open>[:\<close> would open a POSIX class.
\<close>

fun class_char :: "rune list \<Rightarrow> (rune \<times> rune list) parse" where
  "class_char [] = ParseError"
| "class_char (c # t) =
     (if c = 92 then
        (case t of [] \<Rightarrow> ParseError
         | d # t' \<Rightarrow> if d < 128 \<and> \<not> is_alnum d then Parsed (d, t') else Unsupported)
      else Parsed (c, t))"

lemma class_char_shorter: "class_char t = Parsed (c, t') \<Longrightarrow> length t' < length t"
  by (cases t) (auto split: if_splits list.splits)

function class_body :: "bool \<Rightarrow> (rune \<times> rune) list \<Rightarrow> rune list \<Rightarrow>
    ((rune \<times> rune) list \<times> rune list) parse" where
  "class_body first acc t =
    (if t \<noteq> [] \<and> hd t = 93 \<and> \<not> first then Parsed (acc, tl t)
     else if length t > 2 \<and> t ! 0 = 91 \<and> t ! 1 = 58 then Unsupported
     else (case class_char t of
         ParseError \<Rightarrow> ParseError
       | Unsupported \<Rightarrow> Unsupported
       | Parsed (lo, t1) \<Rightarrow>
           if length t1 \<ge> 2 \<and> t1 ! 0 = 45 \<and> t1 ! 1 \<noteq> 93 then
             (case class_char (tl t1) of
                ParseError \<Rightarrow> ParseError
              | Unsupported \<Rightarrow> Unsupported
              | Parsed (hi, t2) \<Rightarrow>
                  if hi < lo then ParseError else class_body False (acc @ [(lo, hi)]) t2)
           else class_body False (acc @ [(lo, lo)]) t1))"
  by pat_completeness auto
termination
proof (relation "measure (\<lambda>(_, _, t). length t)", goal_cases)
  case 2
  then show ?case by (auto dest!: class_char_shorter)
next
  case 3
  then show ?case by (auto dest!: class_char_shorter)
qed simp

declare class_body.simps [simp del]

lemma class_body_cases:
  assumes "class_body first acc t = Parsed (rs, t')"
  shows "t \<noteq> [] \<and> t' = tl t \<or>
    (\<exists>acc' u. length u < length t \<and> class_body False acc' u = Parsed (rs, t'))"
  using assms
  by (subst (asm) class_body.simps)
    (auto split: if_splits parse.splits prod.splits dest!: class_char_shorter)

lemma class_body_shorter: "class_body first acc t = Parsed (rs, t') \<Longrightarrow> length t' < length t"
proof (induction t arbitrary: first acc rule: length_induct)
  case (1 t)
  from class_body_cases [OF "1.prems"] show ?case
    using "1.IH" less_trans by (fastforce simp: neq_Nil_conv)
qed

text \<open>
  Whether the runes behind an open brace complete a counted repetition \<open>{n}\<close>, \<open>{n,}\<close> or
  \<open>{n,m}\<close>; otherwise the brace stands for itself.
\<close>

definition digits_of :: "rune list \<Rightarrow> rune list" where
  "digits_of t = takeWhile (\<lambda>c. 48 \<le> c \<and> c \<le> 57) t"

definition is_counted :: "rune list \<Rightarrow> bool" where
  "is_counted t \<longleftrightarrow>
     (let ds = digits_of t; t1 = drop (length ds) t in
      ds \<noteq> [] \<and> t1 \<noteq> [] \<and>
      (hd t1 = 125 \<or>
       hd t1 = 44 \<and> (let t2 = tl t1; t3 = drop (length (digits_of t2)) t2
                    in t3 \<noteq> [] \<and> hd t3 = 125)))"

definition seq_regex :: "regex list \<Rightarrow> regex" where
  "seq_regex rs = foldr RCat rs REmpty"

definition alt_regex :: "regex list \<Rightarrow> regex \<Rightarrow> regex" where
  "alt_regex rs r = foldr RAlt rs r"

definition repeat_regex :: "rune \<Rightarrow> regex \<Rightarrow> regex" where
  "repeat_regex op r = (if op = 42 then RStar r else if op = 43 then RPlus r else RQuest r)"

text \<open>
  The parser. \<open>stack\<close> holds the groups that are open, each with the alternatives and the
  factors collected before it opened; \<open>alts\<close> and \<open>fs\<close> are the alternatives and the factors of
  the current group; \<open>rep\<close> says that the previous token was a repetition operator, which may
  not be repeated itself.
\<close>

type_synonym frame = "regex list \<times> regex list"

function parse_regex :: "frame list \<Rightarrow> regex list \<Rightarrow> regex list \<Rightarrow> bool \<Rightarrow> rune list \<Rightarrow> regex parse"
where
  "parse_regex stack alts fs rep t =
    (case t of
       [] \<Rightarrow> if stack = [] then Parsed (alt_regex alts (seq_regex fs)) else ParseError
     | c # t1 \<Rightarrow>
       if c = 40 then
         if t1 \<noteq> [] \<and> hd t1 = 63 then Unsupported
         else parse_regex ((alts, fs) # stack) [] [] False t1
       else if c = 124 then parse_regex stack (alts @ [seq_regex fs]) [] False t1
       else if c = 41 then
         (case stack of
            [] \<Rightarrow> ParseError
          | (alts', fs') # stack' \<Rightarrow>
              parse_regex stack' alts' (fs' @ [alt_regex alts (seq_regex fs)]) False t1)
       else if c = 94 then parse_regex stack alts (fs @ [RBegin]) False t1
       else if c = 36 then parse_regex stack alts (fs @ [REnd]) False t1
       else if c = 46 then parse_regex stack alts (fs @ [RRune AnyNotNL]) False t1
       else if c = 91 then
         (let neg = (t1 \<noteq> [] \<and> hd t1 = 94) in
          case class_body True [] (if neg then tl t1 else t1) of
            ParseError \<Rightarrow> ParseError
          | Unsupported \<Rightarrow> Unsupported
          | Parsed (rs, t2) \<Rightarrow>
              parse_regex stack alts (fs @ [RRune (Class neg rs)]) False t2)
       else if c = 42 \<or> c = 43 \<or> c = 63 then
         if rep \<or> fs = [] then ParseError
         else parse_regex stack alts (butlast fs @ [repeat_regex c (last fs)]) True
                (if t1 \<noteq> [] \<and> hd t1 = 63 then tl t1 else t1)
       else if c = 123 \<and> is_counted t1 then Unsupported
       else if c = 92 then
         (case t1 of
            [] \<Rightarrow> ParseError
          | d # t2 \<Rightarrow>
              if d < 128 \<and> \<not> is_alnum d then
                parse_regex stack alts (fs @ [RRune (One d)]) False t2
              else Unsupported)
       else parse_regex stack alts (fs @ [RRune (One c)]) False t1)"
  by pat_completeness auto
termination
  by (relation "measure (\<lambda>(_, _, _, _, t). length t)")
    (auto dest!: class_body_shorter split: if_splits)

declare parse_regex.simps [simp del]

definition Compile_regexp :: "string \<Rightarrow> regex parse" where
  "Compile_regexp expr =
     (if utf8_valid expr then parse_regex [] [] [] False (runes expr) else ParseError)"

definition Match_regexp :: "regex \<Rightarrow> string \<Rightarrow> bool" where
  "Match_regexp r input = search r (runes input)"


section \<open>Parsing quoted text\<close>

text \<open>
  The runes of a quoted string parse to the literal runes of the string: the quoting leaves no
  character of the string with a special meaning, whatever the bytes are.
\<close>

definition special_rune :: "rune \<Rightarrow> bool" where
  "special_rune c \<longleftrightarrow> c \<in> byte ` set special"

lemma special_runes: "byte ` set special = {92, 46, 43, 42, 63, 40, 41, 124, 91, 93, 123, 125, 94, 36}"
  by (simp add: special_def byte_def)

lemma special_ascii: "c \<in> set special \<Longrightarrow> byte c < 0x80"
  by (auto simp: special_def byte_def)

lemma special_rune_byte: "special_rune (byte c) \<longleftrightarrow> c \<in> set special"
  by (auto simp: special_rune_def byte_inject)

lemma parse_literal:
  "\<not> special_rune c \<Longrightarrow> parse_regex st al fs rep (c # t) = parse_regex st al (fs @ [RRune (One c)]) False t"
  by (subst parse_regex.simps) (simp add: special_rune_def special_runes)

lemma parse_escaped:
  "special_rune c \<Longrightarrow> parse_regex st al fs rep (92 # c # t) = parse_regex st al (fs @ [RRune (One c)]) False t"
  by (subst parse_regex.simps) (auto simp: special_rune_def special_runes is_alnum_def)

lemma fst_DecodeRune_ascii:
  assumes "fst (DecodeRune (c # cs)) < 0x80"
  shows "fst (DecodeRune (c # cs)) = byte c"
proof (cases "byte c < 0x80")
  case False
  obtain r n where d: "DecodeRune (c # cs) = (r, n)" by fastforce
  show ?thesis
  proof (cases "r = RuneError")
    case False
    then have e: "EncodeRune r = take n (c # cs)" using EncodeRune_DecodeRune [OF d] by simp
    have "EncodeRune r = [char_of r]" using assms d by (simp add: EncodeRune_def)
    then have "c = char_of r" using e by (cases n) auto
    then show ?thesis using assms d by (simp add: byte_def)
  qed (use assms d in \<open>simp add: RuneError_def\<close>)
qed (simp add: DecodeRune_ascii)

lemma ascii_rune_is_byte: "r \<in> set (runes s) \<Longrightarrow> r < 0x80 \<Longrightarrow> r \<in> byte ` set s"
proof (induction s rule: utf8_chunks.induct)
  case (1 s)
  show ?case
  proof (cases s)
    case (Cons c cs)
    obtain q n where d: "DecodeRune s = (q, n)" by fastforce
    have "runes s = q # runes (drop n s)"
      using runes_unfold [OF _ d] Cons by simp
    with "1.prems" consider "r = q" | "r \<in> set (runes (drop n s))" by auto
    then show ?thesis
    proof cases
      case 1
      then have "r = byte c"
        using fst_DecodeRune_ascii [of c cs] d "1.prems" by (simp add: Cons)
      then show ?thesis by (simp add: Cons)
    next
      case 2
      then have "r \<in> byte ` set (drop n s)"
        using "1.IH" [OF _ d [symmetric] refl] "1.prems" Cons by simp
      then show ?thesis using set_drop_subset [of n s] by blast
    qed
  qed (use "1.prems" in simp)
qed

lemma no_special_runes:
  assumes "set s \<inter> set special = {}" and "r \<in> set (runes s)"
  shows "\<not> special_rune r"
proof
  assume sp: "special_rune r"
  then have "r < 0x80" using special_ascii by (auto simp: special_rune_def)
  with assms(2) obtain c where "c \<in> set s" "r = byte c"
    using ascii_rune_is_byte by blast
  with sp assms(1) show False by (auto simp: special_rune_byte)
qed

lemma parse_plain_runes:
  "\<forall>r \<in> set rs. \<not> special_rune r \<Longrightarrow>
   parse_regex st al fs rep (rs @ t) =
   parse_regex st al (fs @ map (\<lambda>r. RRune (One r)) rs) (rep \<and> rs = []) t"
proof (induction rs arbitrary: fs rep)
  case (Cons r rs)
  then show ?case by (simp add: parse_literal)
qed simp

lemma QuoteMeta_append: "QuoteMeta (a @ b) = QuoteMeta a @ QuoteMeta b"
  by (induction a) auto

lemma QuoteMeta_plain: "set s \<inter> set special = {} \<Longrightarrow> QuoteMeta s = s"
  by (induction s) auto

lemma special_split:
  obtains (plain) "set s \<inter> set special = {}"
  | (special) a c b where "s = a @ c # b" "c \<in> set special" "set a \<inter> set special = {}"
proof (cases "\<exists>x \<in> set s. x \<in> set special")
  case True
  then obtain a c b where "s = a @ c # b" "c \<in> set special" "\<forall>y \<in> set a. y \<notin> set special"
    using split_list_first_prop [of s "\<lambda>x. x \<in> set special"] by blast
  then show ?thesis using special by blast
next
  case False
  then show ?thesis using plain by blast
qed

lemma backslash_ascii: "byte (CHR 0x5C) = 92"
  by (simp add: byte_def)

lemma runes_QuoteMeta_special:
  assumes "c \<in> set special" and "set a \<inter> set special = {}"
  shows "runes (QuoteMeta (a @ c # b)) = runes a @ 92 # byte c # runes (QuoteMeta b)"
  using assms special_ascii [OF assms(1)]
  by (simp add: QuoteMeta_append QuoteMeta_plain runes_append_ascii backslash_ascii)

lemma utf8_valid_QuoteMeta: "utf8_valid (QuoteMeta s) = utf8_valid s"
proof (induction s rule: length_induct)
  case (1 s)
  show ?case
  proof (cases s rule: special_split)
    case (special a c b)
    with "1.IH" have "utf8_valid (QuoteMeta b) = utf8_valid b" by simp
    then show ?thesis
      using special special_ascii [OF special(2)]
      by (simp add: QuoteMeta_append QuoteMeta_plain utf8_valid_append_ascii backslash_ascii)
  qed (simp add: QuoteMeta_plain)
qed

lemma parse_QuoteMeta:
  "parse_regex st al fs rep (runes (QuoteMeta s) @ t) =
   parse_regex st al (fs @ map (\<lambda>r. RRune (One r)) (runes s)) (rep \<and> s = []) t"
proof (induction s arbitrary: fs rep rule: length_induct)
  case (1 s)
  show ?case
  proof (cases s rule: special_split)
    case plain
    then show ?thesis
      by (simp add: QuoteMeta_plain parse_plain_runes no_special_runes)
  next
    case (special a c b)
    have IH: "\<And>fs rep. parse_regex st al fs rep (runes (QuoteMeta b) @ t) =
        parse_regex st al (fs @ map (\<lambda>r. RRune (One r)) (runes b)) (rep \<and> b = []) t"
      using "1.IH" special(1) by simp
    have "parse_regex st al fs rep (runes (QuoteMeta s) @ t) =
        parse_regex st al (fs @ map (\<lambda>r. RRune (One r)) (runes a)) (rep \<and> runes a = [])
          (92 # byte c # runes (QuoteMeta b) @ t)"
      using special by (simp add: runes_QuoteMeta_special parse_plain_runes no_special_runes)
    then show ?thesis
      using special special_ascii [OF special(2)]
      by (simp add: parse_escaped special_rune_byte IH runes_append_ascii)
  qed
qed

end
