(* ===== verification/Wildcard.thy ===== *)
theory Wildcard
  imports Go_Regexp
begin

text \<open>
  \<open>src/wildcard/matcher.go\<close>: the compiler from wildcard patterns to regular expressions and the
  matcher.

  The model builds the same text of a regular expression, byte by byte, and hands it to the
  model of \<open>regexp.Compile\<close>. The abstract specification \<open>path_matches\<close> speaks of the path
  components of the input only and knows nothing of regular expressions; \<open>Compile_refines\<close> is
  the refinement between the two, for every separator that is an ordinary ASCII character.
\<close>


section \<open>The program\<close>

definition defaultSeparator :: rune where
  "defaultSeparator = byte (CHR ''/'')"

definition errEmptyPattern :: error where
  "errEmptyPattern = ''input pattern was empty string''"

definition errInvalidWildcard :: error where
  "errInvalidWildcard = ''wildcard '*' can only appear between two separators''"

definition errInvalidDoubleWildcard :: error where
  "errInvalidDoubleWildcard = ''wildcard '**' can only appear at end of pattern''"

definition errRegexpCompile :: error where
  "errRegexpCompile = ''unable to compile generated regex (internal bug)''"

text \<open>The marker for expressions outside the modelled part of \<open>regexp\<close>; not an error of the code.\<close>

definition errNotModelled :: error where
  "errNotModelled = ''regexp syntax outside the model''"

record regexpMatcher =
  matcher_pattern :: regex

text \<open>
  The loop over the segments: \<open>n\<close> is the number of segments, \<open>i\<close> the index of the current one
  and \<open>regex\<close> the buffer.
\<close>

fun CompileWithSeparator_loop ::
  "string \<Rightarrow> nat \<Rightarrow> nat \<Rightarrow> string \<Rightarrow> string list \<Rightarrow> string result" where
  "CompileWithSeparator_loop separator n i regex [] = Inr regex"
| "CompileWithSeparator_loop separator n i regex (segment # segments) =
     (let separate = (\<lambda>regex.
        let regex = regex @ separator;
            regex = (if i = n - 1 then regex @ ''?$'' else regex)
        in CompileWithSeparator_loop separator n (i + 1) regex segments)
      in if segment = ''*'' then separate (regex @ ''[^'' @ separator @ '']+'')
         else if segment = ''**'' then
           (if i \<noteq> n - 1 then Inl errInvalidDoubleWildcard
            else Inr (regex @ ''?(|'' @ separator @ ''.*)$''))
         else if Contains segment ''*'' then Inl errInvalidWildcard
         else separate (regex @ QuoteMeta segment))"

definition CompileWithSeparator :: "string \<Rightarrow> rune \<Rightarrow> regexpMatcher result" where
  "CompileWithSeparator pattern separator =
     (if pattern = [] then Inl errEmptyPattern
      else
        (let segments = Split pattern (EncodeRune separator) in
         case CompileWithSeparator_loop (EncodeRune separator) (length segments) 0 ''^'' segments of
           Inl err \<Rightarrow> Inl err
         | Inr regex \<Rightarrow>
             (case Compile_regexp regex of
                Parsed compiled \<Rightarrow> Inr \<lparr>matcher_pattern = compiled\<rparr>
              | ParseError \<Rightarrow> Inl errRegexpCompile
              | Unsupported \<Rightarrow> Inl errNotModelled)))"

definition Compile :: "string \<Rightarrow> regexpMatcher result" where
  "Compile pattern = CompileWithSeparator pattern defaultSeparator"

fun CompileList_loop :: "regexpMatcher list \<Rightarrow> string list \<Rightarrow> regexpMatcher list result" where
  "CompileList_loop ms [] = Inr ms"
| "CompileList_loop ms (pattern # patterns) =
     (case Compile pattern of
        Inl err \<Rightarrow> Inl err
      | Inr m \<Rightarrow> CompileList_loop (ms @ [m]) patterns)"

definition CompileList :: "string list \<Rightarrow> regexpMatcher list result" where
  "CompileList patterns = CompileList_loop [] patterns"

definition MustCompile :: "string \<Rightarrow> regexpMatcher outcome" where
  "MustCompile pattern =
     (case CompileWithSeparator pattern defaultSeparator of
        Inl err \<Rightarrow> Panic err
      | Inr m \<Rightarrow> Value m)"

definition Matches :: "regexpMatcher \<Rightarrow> string \<Rightarrow> bool" where
  "Matches rm input = Match_regexp (matcher_pattern rm) input"


section \<open>The abstract specification\<close>

text \<open>
  A pattern is a list of segments. A literal segment is equal to the path component it matches,
  a star matches any component that is not empty, and a double star at the end matches any
  number of further components that contain no newline. The input may end in one extra
  separator, that is, in one extra empty component.
\<close>

definition component_matches :: "string \<Rightarrow> rune list \<Rightarrow> bool" where
  "component_matches segment part \<longleftrightarrow>
     (if segment = ''*'' then part \<noteq> [] else part = runes segment)"

definition path_matches :: "string list \<Rightarrow> rune list list \<Rightarrow> bool" where
  "path_matches segments comps \<longleftrightarrow>
     (if last segments = ''**'' then
        (let front = butlast segments in
         front = [] \<or>
         list_all2 component_matches front (take (length front) comps) \<and>
         (\<forall>part \<in> set (drop (length front) comps). 10 \<notin> set part))
      else
        list_all2 component_matches segments comps \<or>
        last comps = [] \<and> list_all2 component_matches segments (butlast comps))"

definition segment_ok :: "string \<Rightarrow> bool" where
  "segment_ok segment \<longleftrightarrow> segment = ''*'' \<or> CHR ''*'' \<notin> set segment"

definition segments_ok :: "string list \<Rightarrow> bool" where
  "segments_ok segments \<longleftrightarrow>
     list_all segment_ok (butlast segments) \<and> (last segments = ''**'' \<or> segment_ok (last segments))"

text \<open>The separators for which the refinement is proved: ASCII, not special, not a newline.\<close>

definition plain_separator :: "char \<Rightarrow> bool" where
  "plain_separator c \<longleftrightarrow> byte c < 0x80 \<and> c \<notin> set special \<and> byte c \<noteq> 10"

lemma plain_separator_slash [simp]: "plain_separator (CHR ''/'')"
  by (simp add: plain_separator_def byte_def special_def)


section \<open>What the loop writes\<close>

text \<open>
  The text of the expression without the index: \<open>regex_text\<close> is what the loop appends for the
  remaining segments.
\<close>

fun regex_text :: "string \<Rightarrow> string list \<Rightarrow> string" where
  "regex_text sep [] = []"
| "regex_text sep (segment # segments) =
     (if segment = ''**'' then ''?(|'' @ sep @ ''.*)$''
      else (if segment = ''*'' then ''[^'' @ sep @ '']+'' else QuoteMeta segment) @ sep
        @ (if segments = [] then ''?$'' else regex_text sep segments))"

fun segments_error :: "string list \<Rightarrow> error option" where
  "segments_error [] = None"
| "segments_error (segment # segments) =
     (if segment = ''*'' then segments_error segments
      else if segment = ''**'' then
        (if segments = [] then None else Some errInvalidDoubleWildcard)
      else if CHR ''*'' \<in> set segment then Some errInvalidWildcard
      else segments_error segments)"

lemma CompileWithSeparator_loop_eq:
  "n = i + length segments \<Longrightarrow>
   CompileWithSeparator_loop sep n i regex segments =
   (case segments_error segments of
      None \<Rightarrow> Inr (regex @ regex_text sep segments)
    | Some err \<Rightarrow> Inl err)"
proof (induction segments arbitrary: i regex)
  case (Cons segment segments)
  have last_iff: "i = n - 1 \<longleftrightarrow> segments = []"
    using Cons.prems by auto
  show ?case
    by (cases "segments = []")
      (use Cons.IH [of "Suc i"] Cons.prems last_iff in
        \<open>auto simp: Contains_char split: option.splits\<close>)
qed simp

lemma segments_error_None: "segments_error segments = None \<longleftrightarrow> segments = [] \<or> segments_ok segments"
proof (induction segments)
  case (Cons segment segments)
  then show ?case
    by (cases "segments = []") (auto simp: segments_ok_def segment_ok_def)
qed simp

lemma segments_error_Some:
  "segments_error segments = Some err \<Longrightarrow>
   err = errInvalidWildcard \<or> err = errInvalidDoubleWildcard"
  by (induction segments) (auto split: if_splits)

definition regex_of_pattern :: "char \<Rightarrow> string \<Rightarrow> string" where
  "regex_of_pattern c pattern = ''^'' @ regex_text [c] (split_on c pattern)"

lemma EncodeRune_byte: "byte c < 0x80 \<Longrightarrow> EncodeRune (byte c) = [c]"
  by (simp add: EncodeRune_def)

lemma CompileWithSeparator_eq:
  assumes "byte c < 0x80"
  shows "CompileWithSeparator pattern (byte c) =
    (if pattern = [] then Inl errEmptyPattern
     else case segments_error (split_on c pattern) of
       Some err \<Rightarrow> Inl err
     | None \<Rightarrow>
         (case Compile_regexp (regex_of_pattern c pattern) of
            Parsed r \<Rightarrow> Inr \<lparr>matcher_pattern = r\<rparr>
          | ParseError \<Rightarrow> Inl errRegexpCompile
          | Unsupported \<Rightarrow> Inl errNotModelled))"
  by (simp add: CompileWithSeparator_def EncodeRune_byte [OF assms] Split_char
      CompileWithSeparator_loop_eq regex_of_pattern_def split: option.splits)


section \<open>What the regular expression parses to\<close>

definition lit :: "rune \<Rightarrow> regex" where
  "lit r = RRune (One r)"

definition segment_factors :: "rune \<Rightarrow> string \<Rightarrow> regex list" where
  "segment_factors c segment =
     (if segment = ''*'' then [RPlus (RRune (Class True [(c, c)]))] else map lit (runes segment))"

definition rest_group :: "rune \<Rightarrow> regex" where
  "rest_group c = RAlt REmpty (RCat (lit c) (RCat (RStar (RRune AnyNotNL)) REmpty))"

fun factors :: "rune \<Rightarrow> regex list \<Rightarrow> string list \<Rightarrow> regex list" where
  "factors c fs [] = fs"
| "factors c fs (segment # segments) =
     (if segment = ''**'' then butlast fs @ [RQuest (last fs), rest_group c, REnd]
      else if segments = [] then fs @ segment_factors c segment @ [RQuest (lit c), REnd]
      else factors c (fs @ segment_factors c segment @ [lit c]) segments)"

lemma parse_tokens:
  "parse_regex st al fs rep [] = (if st = [] then Parsed (alt_regex al (seq_regex fs)) else ParseError)"
  "parse_regex st al fs rep (36 # t) = parse_regex st al (fs @ [REnd]) False t"
  "parse_regex st al fs rep (94 # t) = parse_regex st al (fs @ [RBegin]) False t"
  "parse_regex st al fs rep (46 # t) = parse_regex st al (fs @ [RRune AnyNotNL]) False t"
  "parse_regex st al fs rep (124 # t) = parse_regex st (al @ [seq_regex fs]) [] False t"
  "parse_regex st al fs rep (40 # 124 # t) = parse_regex ((al, fs) # st) [] [] False (124 # t)"
  "parse_regex ((al', fs') # st) al fs rep (41 # t) =
     parse_regex st al' (fs' @ [alt_regex al (seq_regex fs)]) False t"
  "fs \<noteq> [] \<Longrightarrow> t = [] \<or> hd t \<noteq> 63 \<Longrightarrow>
     parse_regex st al fs False (63 # t) = parse_regex st al (butlast fs @ [RQuest (last fs)]) True t"
  "fs \<noteq> [] \<Longrightarrow> t = [] \<or> hd t \<noteq> 63 \<Longrightarrow>
     parse_regex st al fs False (42 # t) = parse_regex st al (butlast fs @ [RStar (last fs)]) True t"
  "fs \<noteq> [] \<Longrightarrow> t = [] \<or> hd t \<noteq> 63 \<Longrightarrow>
     parse_regex st al fs False (43 # t) = parse_regex st al (butlast fs @ [RPlus (last fs)]) True t"
  by (subst parse_regex.simps; force simp: repeat_regex_def)+

lemma parse_class:
  assumes "c < 128" "\<not> special_rune c"
  shows "parse_regex st al fs rep (91 # 94 # c # 93 # t) =
    parse_regex st al (fs @ [RRune (Class True [(c, c)])]) False t"
proof -
  have "c \<noteq> 92" "c \<noteq> 91" "c \<noteq> 93" using assms(2) by (auto simp: special_rune_def special_runes)
  then have "class_body True [] (c # 93 # t) = Parsed ([(c, c)], t)"
    by (simp add: class_body.simps)
  then show ?thesis
    by (subst parse_regex.simps) simp
qed


lemma parse_quoted:
  "parse_regex st al fs rep (runes (QuoteMeta segment) @ t) =
   parse_regex st al (fs @ map lit (runes segment)) (rep \<and> segment = []) t"
  using parse_QuoteMeta [of st al fs rep segment t] by (simp add: lit_def [abs_def])

lemma parse_lit: "\<not> special_rune c \<Longrightarrow> parse_regex st al fs rep (c # t) = parse_regex st al (fs @ [lit c]) False t"
  by (simp add: parse_literal lit_def)

text \<open>The runes of the generated text, split into the tokens of the parser.\<close>

lemma runes_regex_text:
  assumes "byte c < 0x80"
  shows "runes (regex_text [c] (segment # segments)) =
    (if segment = ''**'' then [63, 40, 124, byte c, 46, 42, 41, 36]
     else (if segment = ''*'' then [91, 94, byte c, 93, 43] else runes (QuoteMeta segment)) @ byte c
       # (if segments = [] then [63, 36] else runes (regex_text [c] segments)))"
proof -
  have a: "byte (CHR ''?'') = 63" "byte (CHR ''('') = 40" "byte (CHR ''|'') = 124"
    "byte (CHR ''.'') = 46" "byte (CHR ''*'') = 42" "byte (CHR '')'') = 41" "byte (CHR ''$'') = 36"
    "byte (CHR ''['') = 91" "byte (CHR ''^'') = 94" "byte (CHR '']'') = 93" "byte (CHR ''+'') = 43"
    by (simp_all add: byte_def)
  show ?thesis
    using assms by (simp add: a runes_append_ascii)
qed

lemma parse_regex_text:
  assumes c: "byte c < 0x80" "c \<notin> set special"
    and "segments \<noteq> []" and "fs \<noteq> []"
  shows "parse_regex [] [] fs False (runes (regex_text [c] segments)) =
    Parsed (seq_regex (factors (byte c) fs segments))"
  using assms(3,4)
proof (induction segments arbitrary: fs)
  case (Cons segment segments)
  have ns: "\<not> special_rune (byte c)" using c by (simp add: special_rune_byte)
  have not_q: "byte c \<noteq> 63" "byte c \<noteq> 124"
    using ns by (auto simp: special_rune_def special_runes)
  show ?case
  proof (cases "segment = ''**''")
    case True
    then show ?thesis
      using Cons.prems c ns not_q
      by (simp add: runes_regex_text parse_tokens parse_lit rest_group_def alt_regex_def seq_regex_def
          butlast_append del: regex_text.simps)
  next
    case False
    let ?fs = "fs @ segment_factors (byte c) segment"
    have seg: "parse_regex [] [] fs False
        ((if segment = ''*'' then [91, 94, byte c, 93, 43] else runes (QuoteMeta segment)) @ byte c # t) =
      parse_regex [] [] (?fs @ [lit (byte c)]) False t" for t
      using c ns not_q
      by (cases "segment = ''*''")
        (simp_all add: parse_class parse_tokens parse_quoted parse_lit segment_factors_def butlast_append)
    show ?thesis
    proof (cases "segments = []")
      case True
      with False show ?thesis
        by (simp add: runes_regex_text c seg parse_tokens alt_regex_def butlast_append
            del: regex_text.simps)
    next
      case nonempty: False
      with False Cons.IH show ?thesis
        by (simp add: runes_regex_text c seg del: regex_text.simps)
    qed
  qed
qed simp

lemma Compile_regexp_pattern:
  assumes "byte c < 0x80" "c \<notin> set special"
  shows "Compile_regexp (regex_of_pattern c pattern) =
    (if utf8_valid (regex_text [c] (split_on c pattern))
     then Parsed (seq_regex (factors (byte c) [RBegin] (split_on c pattern)))
     else ParseError)"
proof -
  have b: "byte (CHR ''^'') = 94" by (simp add: byte_def)
  show ?thesis
    using parse_regex_text [OF assms split_on_not_Nil]
    by (simp add: Compile_regexp_def regex_of_pattern_def b parse_tokens)
qed

text \<open>The generated text is valid UTF-8 exactly when the pattern is.\<close>

lemma utf8_valid_join:
  "byte c < 0x80 \<Longrightarrow> utf8_valid (join_with c xss) \<longleftrightarrow> (\<forall>xs \<in> set xss. utf8_valid xs)"
  by (induction c xss rule: join_with.induct) (auto simp: utf8_valid_append_ascii)

lemma utf8_valid_regex_text:
  assumes c: "byte c < 0x80" and "segments_error segments = None"
  shows "utf8_valid (regex_text [c] segments) \<longleftrightarrow> (\<forall>segment \<in> set segments. utf8_valid segment)"
  using assms(2)
proof (induction segments)
  case (Cons segment segments)
  have ascii: "utf8_valid ''*''" "utf8_valid ''**''" "utf8_valid (''[^'' @ [c] @ '']+'')"
    "utf8_valid ''?$''" "utf8_valid (''?(|'' @ [c] @ ''.*)$'')"
    using c by (simp_all add: byte_def)
  show ?case
    using Cons ascii c
    by (auto simp: utf8_valid_append_ascii utf8_valid_QuoteMeta split: if_splits)
qed simp


section \<open>What the regular expression matches\<close>

text \<open>Expressions without anchors match independently of the place.\<close>

fun anchor_free :: "regex \<Rightarrow> bool" where
  "anchor_free RBegin = False"
| "anchor_free REnd = False"
| "anchor_free (RCat r s) = (anchor_free r \<and> anchor_free s)"
| "anchor_free (RAlt r s) = (anchor_free r \<and> anchor_free s)"
| "anchor_free (RStar r) = anchor_free r"
| "anchor_free (RPlus r) = anchor_free r"
| "anchor_free (RQuest r) = anchor_free r"
| "anchor_free _ = True"

lemma anchor_free_moves:
  "matches_at r b u e \<Longrightarrow> anchor_free r \<Longrightarrow> matches_at r b' u e'"
  by (induction arbitrary: b' e' rule: matches_at.induct) (auto intro: matches_at.intros)

definition accepts :: "regex list \<Rightarrow> rune list \<Rightarrow> bool" where
  "accepts rs u \<longleftrightarrow> matches_at (seq_regex rs) True u True"

lemma seq_regex_simps [simp]:
  "seq_regex [] = REmpty" "seq_regex (r # rs) = RCat r (seq_regex rs)"
  by (simp_all add: seq_regex_def)

lemma anchor_free_seq [simp]: "anchor_free (seq_regex rs) \<longleftrightarrow> list_all anchor_free rs"
  by (induction rs) auto

lemma matches_at_accepts:
  "list_all anchor_free rs \<Longrightarrow> matches_at (seq_regex rs) b u e \<longleftrightarrow> accepts rs u"
  unfolding accepts_def by (auto elim: anchor_free_moves)

lemma accepts_Nil [simp]: "accepts [] u \<longleftrightarrow> u = []"
  by (simp add: accepts_def)

text \<open>Concatenation of languages, as predicates on rune lists.\<close>

definition conc :: "(rune list \<Rightarrow> bool) \<Rightarrow> (rune list \<Rightarrow> bool) \<Rightarrow> rune list \<Rightarrow> bool" where
  "conc P Q u \<longleftrightarrow> (\<exists>x y. u = x @ y \<and> P x \<and> Q y)"

lemma conc_assoc: "conc (conc P Q) R u \<longleftrightarrow> conc P (conc Q R) u"
proof
  assume "conc (conc P Q) R u"
  then show "conc P (conc Q R) u"
    unfolding conc_def by (elim exE conjE) (intro exI conjI, auto)
next
  assume "conc P (conc Q R) u"
  then obtain x y z where "u = x @ y @ z" "P x" "Q y" "R z"
    unfolding conc_def by blast
  then have "u = (x @ y) @ z" "conc P Q (x @ y)" "R z"
    by (auto simp: conc_def)
  then show "conc (conc P Q) R u"
    unfolding conc_def [of "conc P Q"] by blast
qed

lemma conc_simps:
  "conc (\<lambda>x. x = []) Q u \<longleftrightarrow> Q u"
  "conc P (\<lambda>x. x = []) u \<longleftrightarrow> P u"
  "conc (\<lambda>x. x = [c]) Q u \<longleftrightarrow> (\<exists>v. u = c # v \<and> Q v)"
  by (auto simp: conc_def)

lemma accepts_Cons:
  assumes "anchor_free r" "list_all anchor_free rs"
  shows "accepts (r # rs) u \<longleftrightarrow> conc (\<lambda>x. matches_at r True x True) (accepts rs) u"
proof -
  define M where "M x \<longleftrightarrow> matches_at r True x True" for x
  have "matches_at r True x e \<longleftrightarrow> M x" for x e
    unfolding M_def using assms(1) anchor_free_moves by blast
  moreover have "matches_at (seq_regex rs) b y True \<longleftrightarrow> accepts rs y" for b y
    using assms(2) by (rule matches_at_accepts)
  ultimately show ?thesis
    unfolding accepts_def [of "r # rs"] seq_regex_simps matches_at_cat conc_def by simp
qed

lemma accepts_append:
  assumes "list_all anchor_free rs" "list_all anchor_free ss"
  shows "accepts (rs @ ss) u \<longleftrightarrow> conc (accepts rs) (accepts ss) u"
  using assms(1)
proof (induction rs arbitrary: u)
  case Nil
  show ?case by (simp add: conc_def)
next
  case (Cons r rs)
  then have af: "anchor_free r" "list_all anchor_free rs" "list_all anchor_free (rs @ ss)"
    using assms(2) by auto
  have "accepts (rs @ ss) = conc (accepts rs) (accepts ss)"
    using Cons.IH af(2) by (intro ext) simp
  moreover have "accepts (r # rs) = conc (\<lambda>x. matches_at r True x True) (accepts rs)"
    using accepts_Cons af by (intro ext) simp
  ultimately show ?case
    using accepts_Cons [OF af(1,3)] by (simp add: conc_assoc)
qed

lemma accepts_one: "anchor_free r \<Longrightarrow> accepts [r] u \<longleftrightarrow> matches_at r True u True"
  using accepts_Cons [of r "[]" u] by (simp add: conc_def)

lemma matches_at_star_rune:
  "matches_at (RStar (RRune s)) b u e \<longleftrightarrow> list_all (in_runeset s) u"
  by (induction u arbitrary: b) (auto simp: matches_at_star_Cons intro: matches_at.star0)

lemma accepts_lit_Cons:
  "list_all anchor_free rs \<Longrightarrow> accepts (lit c # rs) u \<longleftrightarrow> (\<exists>v. u = c # v \<and> accepts rs v)"
  using accepts_Cons [of "lit c" rs u] by (auto simp: lit_def conc_def)

lemma accepts_lits: "accepts (map lit rs) u \<longleftrightarrow> u = rs"
proof (induction rs arbitrary: u)
  case (Cons r rs)
  have "list_all anchor_free (map lit rs)" by (simp add: lit_def list_all_iff)
  then show ?case by (simp add: accepts_lit_Cons Cons.IH)
qed simp

definition segment_accepts :: "rune \<Rightarrow> string \<Rightarrow> rune list \<Rightarrow> bool" where
  "segment_accepts c segment u \<longleftrightarrow>
     (if segment = ''*'' then u \<noteq> [] \<and> c \<notin> set u else u = runes segment)"

lemma anchor_free_factors [simp]:
  "list_all anchor_free (segment_factors c segment)" "anchor_free (lit c)" "anchor_free (rest_group c)"
  by (simp_all add: segment_factors_def lit_def rest_group_def list_all_iff)

lemma accepts_segment: "accepts (segment_factors c segment) u \<longleftrightarrow> segment_accepts c segment u"
proof (cases "segment = ''*''")
  case True
  have "matches_at (RPlus (RRune (Class True [(c, c)]))) True u True \<longleftrightarrow> u \<noteq> [] \<and> c \<notin> set u"
    by (cases u) (auto simp: matches_at_plus matches_at_star_rune list_all_iff ex_append_Cons)
  with True show ?thesis by (simp add: segment_factors_def segment_accepts_def accepts_one)
qed (simp add: segment_factors_def segment_accepts_def accepts_lits)


text \<open>The factors between the two anchors.\<close>

fun body :: "rune \<Rightarrow> string list \<Rightarrow> regex list" where
  "body c [] = []"
| "body c [segment] = segment_factors c segment @ [RQuest (lit c)]"
| "body c (segment # segments) =
     segment_factors c segment
     @ (if segments = [''**''] then [RQuest (lit c), rest_group c] else lit c # body c segments)"

lemma anchor_free_body [simp]: "list_all anchor_free (body c segments)"
  by (induction c segments rule: body.induct) auto

lemma factors_body:
  "segments \<noteq> [] \<Longrightarrow> segments \<noteq> [''**''] \<Longrightarrow> ''**'' \<notin> set (butlast segments) \<Longrightarrow>
   factors c fs segments = fs @ body c segments @ [REnd]"
proof (induction c segments arbitrary: fs rule: body.induct)
  case (3 c segment s ss)
  then show ?case
    by (cases "s # ss = [''**'']") (auto simp: butlast_append split: if_splits)
qed auto

lemma matches_anchored:
  assumes "list_all anchor_free rs"
  shows "matches_at (seq_regex (RBegin # rs @ [REnd])) b u e \<longleftrightarrow> b \<and> e \<and> accepts rs u"
proof -
  have "matches_at (seq_regex (rs @ [REnd])) b u e \<longleftrightarrow> e \<and> accepts rs u" for b
    using assms
  proof (induction rs arbitrary: b u)
    case (Cons r rs)
    then show ?case
      by (auto simp: matches_at_cat accepts_Cons conc_def intro: anchor_free_moves) 
  qed (auto simp: matches_at_cat)
  then show ?thesis
    by (auto simp: matches_at_cat)
qed

lemma search_anchored:
  "list_all anchor_free rs \<Longrightarrow> search (seq_regex (RBegin # rs @ [REnd])) w \<longleftrightarrow> accepts rs w"
  unfolding search_iff by (simp add: matches_anchored del: seq_regex_simps)


section \<open>Refinement: the regular expression matches the path components\<close>

fun comps_match :: "string list \<Rightarrow> rune list list \<Rightarrow> bool" where
  "comps_match [] comps = False"
| "comps_match [segment] comps =
     (case comps of x # rest \<Rightarrow> component_matches segment x \<and> (rest = [] \<or> rest = [[]]) | [] \<Rightarrow> False)"
| "comps_match (segment # segments) comps =
     (case comps of
        x # rest \<Rightarrow> component_matches segment x \<and>
          (if segments = [''**''] then (\<forall>part \<in> set rest. 10 \<notin> set part)
           else rest \<noteq> [] \<and> comps_match segments rest)
      | [] \<Rightarrow> False)"

lemma split_on_Cons_iff:
  "split_on c w = x # rest \<longleftrightarrow>
   c \<notin> set x \<and> (if rest = [] then w = x else \<exists>v. w = x @ c # v \<and> split_on c v = rest)"
proof (cases "rest = []")
  case True
  then show ?thesis by (auto simp: split_on_eq_iff)
next
  case False
  then show ?thesis
    using split_on_append split_on_pieces by (fastforce simp: split_on_eq_iff join_with_Cons)
qed

text \<open>
  A factor without the separator, then nothing (if \<open>N\<close>) or the separator and the rest: this is
  the first component of the split and a condition on the others.
\<close>

lemma conc_split:
  "conc (\<lambda>x. P x \<and> c \<notin> set x) (\<lambda>v. v = [] \<and> N \<or> (\<exists>y. v = c # y \<and> Q (split_on c y))) w \<longleftrightarrow>
    (case split_on c w of
       x # rest \<Rightarrow> P x \<and> (if rest = [] then N else Q rest)
     | [] \<Rightarrow> False)" (is "?l \<longleftrightarrow> ?r")
proof -
  obtain x rest where sp: "split_on c w = x # rest"
    by (cases "split_on c w") auto
  have "?l \<longleftrightarrow> P x \<and> (if rest = [] then N else Q rest)"
  proof
    assume ?l
    then obtain y v where w: "w = y @ v" and y: "P y" "c \<notin> set y" and
      v: "v = [] \<and> N \<or> (\<exists>z. v = c # z \<and> Q (split_on c z))"
      unfolding conc_def by blast
    then show "P x \<and> (if rest = [] then N else Q rest)"
      using sp by (auto simp: split_on_no_sep split_on_append)
  next
    assume r: "P x \<and> (if rest = [] then N else Q rest)"
    show ?l
    proof (cases "rest = []")
      case True
      with r sp show ?thesis by (auto simp: conc_def split_on_Cons_iff)
    next
      case False
      with sp obtain v where "w = x @ c # v" "split_on c v = rest" "c \<notin> set x"
        by (auto simp: split_on_Cons_iff)
      with r False show ?thesis by (auto simp: conc_def)
    qed
  qed
  with sp show ?thesis by simp
qed

lemma segment_accepts_iff:
  "c \<notin> set (runes segment) \<Longrightarrow>
   segment_accepts c segment x \<longleftrightarrow> component_matches segment x \<and> c \<notin> set x"
  by (auto simp: segment_accepts_def component_matches_def)

lemma anchor_free_quest: "list_all anchor_free [RQuest (lit c)]"
  by simp

lemma accepts_quest:
  "accepts [RQuest (lit c)] v \<longleftrightarrow> v = [] \<or> v = [c]"
  by (auto simp: accepts_one lit_def)

lemma accepts_rest_group:
  "accepts [rest_group c] v \<longleftrightarrow> v = [] \<or> (\<exists>y. v = c # y \<and> 10 \<notin> set y)"
  by (auto simp: accepts_one rest_group_def lit_def matches_at_cat matches_at_star_rune list_all_iff)

lemma accepts_rest:
  "c \<noteq> 10 \<Longrightarrow> accepts [RQuest (lit c), rest_group c] v \<longleftrightarrow>
     v = [] \<or> (\<exists>y. v = c # y \<and> 10 \<notin> set y)"
  using accepts_append [of "[RQuest (lit c)]" "[rest_group c]" v]
  by (auto simp: conc_def accepts_quest accepts_rest_group)

lemma newline_in_split: "(c::rune) \<noteq> 10 \<Longrightarrow> 10 \<notin> set y \<longleftrightarrow> (\<forall>part \<in> set (split_on c y). 10 \<notin> set part)"
  using set_piece_subset [of _ c y] set_join_with [of c "split_on c y"]
  by (auto simp: join_split_on)

lemma accepts_body:
  assumes "segments \<noteq> []" and "\<forall>segment \<in> set segments. c \<notin> set (runes segment)" and "c \<noteq> 10"
  shows "accepts (body c segments) w \<longleftrightarrow> comps_match segments (split_on c w)"
  using assms
proof (induction c segments arbitrary: w rule: body.induct)
  case (2 c segment)
  then have S: "accepts (segment_factors c segment) = (\<lambda>x. component_matches segment x \<and> c \<notin> set x)"
    by (intro ext) (simp add: accepts_segment segment_accepts_iff)
  have Q: "accepts [RQuest (lit c)] = (\<lambda>v. v = [] \<and> True \<or> (\<exists>y. v = c # y \<and> split_on c y = [[]]))"
    by (intro ext) (auto simp: accepts_quest split_on_eq_iff)
  show ?case
    unfolding body.simps accepts_append [OF anchor_free_factors(1) anchor_free_quest] S Q
      conc_split [where Q = "\<lambda>r. r = [[]]"]
    by (auto split: list.splits)
next
  case (3 c segment s ss)
  then have S: "accepts (segment_factors c segment) = (\<lambda>x. component_matches segment x \<and> c \<notin> set x)"
    by (intro ext) (simp add: accepts_segment segment_accepts_iff)
  show ?case
  proof (cases "s # ss = [''**'']")
    case True
    have Q: "accepts [RQuest (lit c), rest_group c] =
      (\<lambda>v. v = [] \<and> True \<or> (\<exists>y. v = c # y \<and> (\<forall>part \<in> set (split_on c y). 10 \<notin> set part)))"
      by (intro ext) (simp only: accepts_rest [OF "3.prems"(3)] simp_thms
          flip: newline_in_split [OF "3.prems"(3)])
    have "accepts (body c (segment # s # ss)) w \<longleftrightarrow>
      conc (accepts (segment_factors c segment)) (accepts [RQuest (lit c), rest_group c]) w"
      using True by (simp add: accepts_append)
    then show ?thesis
      using True unfolding S Q conc_split [where Q = "\<lambda>r. \<forall>part \<in> set r. 10 \<notin> set part"]
      by (auto split: list.splits)
  next
    case False
    have Q: "accepts (lit c # body c (s # ss)) =
      (\<lambda>v. v = [] \<and> False \<or> (\<exists>y. v = c # y \<and> comps_match (s # ss) (split_on c y)))"
      using 3 False by (intro ext) (simp add: accepts_lit_Cons)
    have "accepts (body c (segment # s # ss)) w \<longleftrightarrow>
      conc (accepts (segment_factors c segment)) (accepts (lit c # body c (s # ss))) w"
      using False by (auto simp: accepts_append)
    then show ?thesis
      using False unfolding S Q conc_split [where Q = "comps_match (s # ss)"]
      by (auto split: list.splits)
  qed
qed simp


lemma list_all2_comps_Cons:
  "list_all2 P (x # xs) comps \<longleftrightarrow> (case comps of y # ys \<Rightarrow> P x y \<and> list_all2 P xs ys | [] \<Rightarrow> False)"
  by (cases comps) auto

lemma comps_match_path:
  assumes "segments \<noteq> []" "segments \<noteq> [''**'']" "''**'' \<notin> set (butlast segments)"
  shows "comps_match segments comps \<longleftrightarrow> path_matches segments comps"
  using assms
proof (induction segments comps rule: comps_match.induct)
  case (2 segment comps)
  then show ?case
    by (cases comps rule: list.exhaust; cases "tl comps")
      (auto simp: path_matches_def list_all2_comps_Cons split: list.splits)
next
  case (3 segment s ss comps)
  show ?case
  proof (cases comps)
    case (Cons x rest)
    show ?thesis
    proof (cases "s # ss = [''**'']")
      case True
      then show ?thesis by (auto simp: path_matches_def Cons)
    next
      case False
      with 3 Cons have IH: "comps_match (s # ss) rest = path_matches (s # ss) rest"
        by auto
      have "path_matches (segment # s # ss) comps \<longleftrightarrow>
          component_matches segment x \<and> rest \<noteq> [] \<and> path_matches (s # ss) rest"
        using False by (cases rest; cases ss) (auto simp: path_matches_def Cons Let_def)
      with False IH show ?thesis by (auto simp: Cons)
    qed
  qed (auto simp: path_matches_def Let_def list_all2_Cons1)
qed simp

lemma search_double_star: "search (seq_regex (factors c [RBegin] [''**''])) w"
proof -
  have "matches_at (seq_regex [RQuest RBegin, rest_group c, REnd]) b [] True" for b
    by (auto simp: matches_at_cat rest_group_def)
  then show ?thesis
    unfolding search_iff by (intro exI [of _ w] exI [of _ "[]"]) (auto simp del: seq_regex_simps)
qed

lemma segments_ok_double:
  "segments_ok segments \<Longrightarrow> ''**'' \<notin> set (butlast segments)"
  by (auto simp: segments_ok_def segment_ok_def list_all_iff)

lemma separator_not_in_segment:
  assumes "byte c < 0x80" "segment \<in> set (split_on c pattern)"
  shows "byte c \<notin> set (runes segment)"
proof
  assume "byte c \<in> set (runes segment)"
  then have "byte c \<in> byte ` set segment" using assms(1) by (rule ascii_rune_is_byte)
  then show False using split_on_pieces [OF assms(2)] by (auto simp: byte_inject)
qed

lemma search_factors:
  assumes c: "plain_separator c" and ok: "segments_ok (split_on c pattern)"
  shows "search (seq_regex (factors (byte c) [RBegin] (split_on c pattern))) w \<longleftrightarrow>
    path_matches (split_on c pattern) (split_on (byte c) w)"
proof (cases "split_on c pattern = [''**'']")
  case True
  then show ?thesis by (simp add: search_double_star path_matches_def del: factors.simps)
next
  case False
  let ?segs = "split_on c pattern"
  have nd: "''**'' \<notin> set (butlast ?segs)" using ok by (rule segments_ok_double)
  have "search (seq_regex (factors (byte c) [RBegin] ?segs)) w \<longleftrightarrow> accepts (body (byte c) ?segs) w"
    using search_anchored [of "body (byte c) ?segs" w] by (simp add: factors_body False nd)
  also have "\<dots> \<longleftrightarrow> comps_match ?segs (split_on (byte c) w)"
    using c by (intro accepts_body) (auto simp: plain_separator_def separator_not_in_segment)
  also have "\<dots> \<longleftrightarrow> path_matches ?segs (split_on (byte c) w)"
    using False nd by (intro comps_match_path) auto
  finally show ?thesis .
qed

text \<open>Everything about compilation in one equation.\<close>

lemma CompileWithSeparator_cases:
  assumes c: "plain_separator c"
  shows "CompileWithSeparator pattern (byte c) =
    (if pattern = [] then Inl errEmptyPattern
     else case segments_error (split_on c pattern) of
       Some err \<Rightarrow> Inl err
     | None \<Rightarrow>
        if utf8_valid pattern
        then Inr \<lparr>matcher_pattern = seq_regex (factors (byte c) [RBegin] (split_on c pattern))\<rparr>
        else Inl errRegexpCompile)"
proof -
  have ascii: "byte c < 0x80" "c \<notin> set special" using c by (auto simp: plain_separator_def)
  have "segments_error (split_on c pattern) = None \<Longrightarrow>
      utf8_valid (regex_text [c] (split_on c pattern)) = utf8_valid pattern"
    using utf8_valid_regex_text utf8_valid_join [of c "split_on c pattern"] ascii
    by (simp add: join_split_on)
  then show ?thesis
    by (simp add: CompileWithSeparator_eq ascii Compile_regexp_pattern split: option.splits)
qed

lemma Compile_refines:
  assumes "plain_separator c" and "CompileWithSeparator pattern (byte c) = Inr m"
  shows "Matches m input \<longleftrightarrow> path_matches (split_on c pattern) (split_on (byte c) (runes input))"
proof -
  have "segments_ok (split_on c pattern)"
    and "m = \<lparr>matcher_pattern = seq_regex (factors (byte c) [RBegin] (split_on c pattern))\<rparr>"
    using assms(2) segments_error_None [of "split_on c pattern"]
    by (auto simp: CompileWithSeparator_cases [OF assms(1)] split: if_splits option.splits)
  then show ?thesis
    using search_factors [OF assms(1)] by (simp add: Matches_def Match_regexp_def)
qed


section \<open>Consequences for the default separator\<close>

text \<open>Decoding commutes with splitting at an ASCII byte.\<close>

lemma runes_join: "byte c < 0x80 \<Longrightarrow> runes (join_with c xss) = join_with (byte c) (map runes xss)"
proof (induction xss rule: join_with.induct [of "\<lambda>_. _" c, case_names Nil One Cons])
  case (Cons c xs ys yss)
  then show ?case by (simp add: runes_append_ascii)
qed auto

lemma runes_split:
  assumes "byte c < 0x80"
  shows "split_on (byte c) (runes s) = map runes (split_on c s)"
proof -
  have "runes s = join_with (byte c) (map runes (split_on c s))"
    using runes_join [OF assms, of "split_on c s"] by (simp add: join_split_on)
  then show ?thesis
    using assms by (simp add: split_on_join separator_not_in_segment)
qed


lemma defaultSeparator_eq: "defaultSeparator = byte (CHR ''/'')" "byte (CHR ''/'') = 47"
  by (simp_all add: defaultSeparator_def byte_def)

lemma Compile_cases:
  "Compile pattern =
    (if pattern = [] then Inl errEmptyPattern
     else case segments_error (split_on (CHR ''/'') pattern) of
       Some err \<Rightarrow> Inl err
     | None \<Rightarrow>
        if utf8_valid pattern
        then Inr \<lparr>matcher_pattern =
          seq_regex (factors defaultSeparator [RBegin] (split_on (CHR ''/'') pattern))\<rparr>
        else Inl errRegexpCompile)"
  unfolding Compile_def defaultSeparator_def
  by (rule CompileWithSeparator_cases) simp

lemma Matches_path:
  "Compile pattern = Inr m \<Longrightarrow> Matches m input \<longleftrightarrow>
   path_matches (split_on (CHR ''/'') pattern) (split_on defaultSeparator (runes input))"
  unfolding Compile_def defaultSeparator_def by (rule Compile_refines) simp_all

lemma component_matches_Nil: "component_matches segment [] \<longleftrightarrow> segment = []"
  using runes_eq_Nil [of segment] by (auto simp: component_matches_def simp del: runes_eq_Nil)

lemma Compile_Inr_iff:
  "(\<exists>m. Compile pattern = Inr m) \<longleftrightarrow>
   pattern \<noteq> [] \<and> segments_ok (split_on (CHR ''/'') pattern) \<and> utf8_valid pattern"
  using segments_error_None [of "split_on (CHR ''/'') pattern"]
  by (auto simp: Compile_cases split: option.splits)

lemma runes_slash: "split_on defaultSeparator (runes s) = map runes (split_on (CHR ''/'') s)"
  unfolding defaultSeparator_def by (rule runes_split) (simp add: byte_def)

lemma Matches_components:
  "Compile pattern = Inr m \<Longrightarrow> Matches m input \<longleftrightarrow>
   path_matches (split_on (CHR ''/'') pattern) (map runes (split_on (CHR ''/'') input))"
  by (simp add: Matches_path runes_slash)

lemma split_slash_snoc: "split_on (CHR ''/'') (s @ ''/'') = split_on (CHR ''/'') s @ [[]]"
  by (rule split_on_snoc)

lemma split_slash_append:
  "split_on (CHR ''/'') (s @ ''/'' @ t) = split_on (CHR ''/'') s @ split_on (CHR ''/'') t"
  by (simp add: split_on_append_sep)


text \<open>Literal patterns: no segment is a wildcard, so the components are the decoded segments.\<close>

lemma component_matches_literal:
  "CHR ''*'' \<notin> set segment \<Longrightarrow> component_matches segment = (\<lambda>part. part = runes segment)"
  by (auto simp: component_matches_def fun_eq_iff)

lemma list_all2_literal:
  "\<forall>segment \<in> set segments. CHR ''*'' \<notin> set segment \<Longrightarrow>
   list_all2 component_matches segments comps \<longleftrightarrow> comps = map runes segments"
  by (induction segments arbitrary: comps)
    (auto simp: component_matches_literal list_all2_Cons1)

lemma path_matches_literal:
  assumes "CHR ''*'' \<notin> set pattern"
  shows "path_matches (split_on (CHR ''/'') pattern) (split_on defaultSeparator w) \<longleftrightarrow>
    w = runes pattern \<or> w = runes (pattern @ ''/'')"
proof -
  let ?segs = "split_on (CHR ''/'') pattern" and ?comps = "split_on defaultSeparator w"
  have no_star: "\<forall>segment \<in> set ?segs. CHR ''*'' \<notin> set segment"
    using assms set_piece_subset by fastforce
  then have "last ?segs \<noteq> ''**''"
    using last_in_set [OF split_on_not_Nil [of "CHR ''/''" pattern]] by fastforce
  then have "path_matches ?segs ?comps \<longleftrightarrow>
      ?comps = map runes ?segs \<or> last ?comps = [] \<and> butlast ?comps = map runes ?segs"
    by (simp add: path_matches_def list_all2_literal [OF no_star])
  also have "\<dots> \<longleftrightarrow> ?comps = map runes ?segs \<or> ?comps = map runes (?segs @ [[]])"
    by (simp add: last_butlast_iff)
  also have "\<dots> \<longleftrightarrow> w = runes pattern \<or> w = runes (pattern @ ''/'')"
    unfolding split_slash_snoc [symmetric] runes_slash [symmetric] split_on_inject ..
  finally show ?thesis .
qed

definition trailing_empty :: "string list \<Rightarrow> bool" where
  "trailing_empty segments \<longleftrightarrow>
     (let front = (if last segments = ''**'' then butlast segments else segments)
      in front \<noteq> [] \<and> last front = [])"

lemma list_all2_snoc_Nil:
  "list_all2 component_matches segments (comps @ [[]]) \<longleftrightarrow>
   segments \<noteq> [] \<and> last segments = [] \<and> list_all2 component_matches (butlast segments) comps"
  by (cases segments rule: rev_cases)
    (auto simp: component_matches_Nil list_all2_append list_all2_append2 list_all2_Cons2
      dest: list_all2_lengthD)

lemma path_matches_trailing:
  assumes "segments \<noteq> []" "comps \<noteq> []" "last comps \<noteq> []" "\<not> trailing_empty segments"
  shows "path_matches segments (comps @ [[]]) \<longleftrightarrow> path_matches segments comps"
proof (cases "last segments = ''**''")
  case True
  let ?n = "length (butlast segments)"
  show ?thesis
  proof (cases "?n \<le> length comps")
    case le: True
    then show ?thesis using True by (auto simp: path_matches_def Let_def)
  next
    case False
    have "\<not> list_all2 component_matches (butlast segments) (comps @ [[]])"
      using assms(4) True by (auto simp: trailing_empty_def list_all2_snoc_Nil)
    moreover have "butlast segments \<noteq> []" using False by (metis le0 list.size(3))
    ultimately show ?thesis
      using False True by (auto simp: path_matches_def Let_def dest!: list_all2_lengthD)
  qed
next
  case False
  with assms show ?thesis
    by (auto simp: path_matches_def trailing_empty_def list_all2_snoc_Nil)
qed

lemma path_matches_double_star:
  assumes "segments \<noteq> []" "last segments \<noteq> ''**''" "path_matches segments comps"
    and "\<forall>part \<in> set rest. 10 \<notin> set part"
  shows "path_matches (segments @ [''**'']) (comps @ rest)"
proof -
  have "list_all2 component_matches segments comps \<or>
      comps \<noteq> [] \<and> last comps = [] \<and> list_all2 component_matches segments (butlast comps)"
    using assms(1-3) by (auto simp: path_matches_def)
  then obtain front more where *: "comps = front @ more" "list_all2 component_matches segments front"
      "\<forall>part \<in> set more. 10 \<notin> set part"
  proof (elim disjE conjE, goal_cases)
    case 1
    then show ?thesis using that [of comps "[]"] by simp
  next
    case 2
    then have "comps = butlast comps @ [[]]" using last_butlast_iff [of comps] by blast
    then show ?thesis using that [of "butlast comps" "[[]]"] 2 by simp
  qed
  then show ?thesis
    using assms(1,4) list_all2_lengthD [OF *(2)] by (auto simp: path_matches_def)
qed

lemma CompileList_loop_Inr:
  "CompileList_loop ms patterns = Inr ms' \<longleftrightarrow>
   (\<exists>ns. ms' = ms @ ns \<and> list_all2 (\<lambda>p m. Compile p = Inr m) patterns ns)"
proof (induction patterns arbitrary: ms)
  case (Cons p ps)
  show ?case
    by (cases "Compile p") (auto simp: Cons.IH list_all2_Cons1)
qed auto

lemma CompileList_loop_Inl:
  "CompileList_loop ms patterns = Inl err \<longleftrightarrow>
   (case dropWhile (\<lambda>p. \<not> is_error (Compile p)) patterns of
      [] \<Rightarrow> False | p # _ \<Rightarrow> Compile p = Inl err)"
proof (induction patterns arbitrary: ms)
  case (Cons q qs)
  show ?case
    by (cases "Compile q") (auto simp: Cons.IH)
qed simp


section \<open>Properties\<close>

text \<open>
  C1. A compiled pattern matches an input exactly when the path components of the input match
  the segments of the pattern: a literal segment matches only itself, a star any non-empty
  component, a final double star any further components without a newline, and one extra
  separator at the end of the input is tolerated. The regular expression that the code builds
  implements this specification for every pattern and every input, whatever regexp
  metacharacters they contain.
\<close>

theorem Compile_matches_path:
  assumes "Compile pattern = Inr m"
  shows "Matches m input \<longleftrightarrow>
    path_matches (split_on (CHR ''/'') pattern) (map runes (split_on (CHR ''/'') input))"
  using assms by (rule Matches_components)

theorem Compile_matches_path_witness:
  "\<exists>m. Compile ''spiffe://some/*/pattern'' = Inr m \<and>
     Matches m ''spiffe://some/test/pattern'' \<and> \<not> Matches m ''spiffe://some//pattern''"
proof -
  have "\<exists>m. Compile ''spiffe://some/*/pattern'' = Inr m"
    unfolding Compile_Inr_iff by (simp add: segments_ok_def segment_ok_def byte_def)
  then obtain m where m: "Compile ''spiffe://some/*/pattern'' = Inr m" ..
  show ?thesis
    using m by (simp add: Compile_matches_path [OF m] path_matches_def component_matches_def byte_def)
qed


text \<open>
  The error of a failed compilation: the empty pattern, else the first offending segment,
  else an encoding error. The last case is the only way to the error that the code calls an
  internal bug, and it is reached by every otherwise good pattern that is not valid UTF-8.
\<close>

theorem Compile_error_iff:
  "Compile pattern = Inl err \<longleftrightarrow>
   (if pattern = [] then err = errEmptyPattern
    else case segments_error (split_on (CHR ''/'') pattern) of
      Some err' \<Rightarrow> err = err' \<and> (err = errInvalidWildcard \<or> err = errInvalidDoubleWildcard)
    | None \<Rightarrow> \<not> utf8_valid pattern \<and> err = errRegexpCompile)"
  by (auto simp: Compile_cases dest: segments_error_Some split: option.splits)

text \<open>
  A pattern without stars is matched literally: it matches the input that is equal to it,
  the same input with one separator appended, and no other valid UTF-8 input. In particular no
  character of the pattern acts as a regexp operator.
\<close>

theorem literal_pattern_matches:
  assumes "pattern \<noteq> []" and "CHR ''*'' \<notin> set pattern"
    and "utf8_valid pattern" and "utf8_valid input"
  shows "\<exists>m. Compile pattern = Inr m \<and>
    (Matches m input \<longleftrightarrow> input = pattern \<or> input = pattern @ ''/'')"
proof -
  have "\<forall>segment \<in> set (split_on (CHR ''/'') pattern). CHR ''*'' \<notin> set segment"
    using assms(2) set_piece_subset by fastforce
  then have "segments_ok (split_on (CHR ''/'') pattern)"
    by (auto simp: segments_ok_def segment_ok_def list_all_iff dest: in_set_butlastD)
  then obtain m where m: "Compile pattern = Inr m"
    using Compile_Inr_iff [of pattern] assms by blast
  have "utf8_valid (pattern @ ''/'')"
    using assms(3) by (simp add: utf8_valid_append_ascii byte_def)
  then show ?thesis
    using m assms Matches_path [OF m, of input] path_matches_literal [OF assms(2)]
    by (simp add: runes_inject)
qed

theorem literal_pattern_matches_witness:
  "\<exists>m. Compile ''spiffe://./.+'' = Inr m \<and> Matches m ''spiffe://./.+'' \<and> \<not> Matches m ''spiffe://a/bc''"
proof -
  have h: "''spiffe://./.+'' \<noteq> []" "CHR ''*'' \<notin> set ''spiffe://./.+''"
    "utf8_valid ''spiffe://./.+''" "utf8_valid ''spiffe://a/bc''"
    by (simp_all add: byte_def)
  from literal_pattern_matches [OF h(1-3) h(3)] literal_pattern_matches [OF h]
  show ?thesis by auto
qed

text \<open>
  A separator at the end of the input is optional: for a pattern whose last segment (before
  a final double star) is not empty, an input that does not end in a separator matches exactly
  when the input with a separator appended does.
\<close>

theorem trailing_separator_optional:
  assumes "Compile pattern = Inr m"
    and "\<not> trailing_empty (split_on (CHR ''/'') pattern)"
    and "input \<noteq> []" and "last input \<noteq> CHR ''/''"
  shows "Matches m (input @ ''/'') \<longleftrightarrow> Matches m input"
proof -
  let ?comps = "split_on (CHR ''/'') input"
  have "last ?comps \<noteq> []" using assms(3,4) by (simp add: last_split_on_Nil)
  then have "last (map runes ?comps) \<noteq> []" by (simp add: last_map)
  then show ?thesis
    using path_matches_trailing [OF _ _ _ assms(2), of "map runes ?comps"]
    by (simp add: Matches_components [OF assms(1)] split_slash_snoc)
qed

theorem trailing_separator_optional_witness:
  "\<exists>m. Compile ''test://foo/*'' = Inr m \<and>
     (Matches m (''test://foo/bar'' @ ''/'') \<longleftrightarrow> Matches m ''test://foo/bar'')"
proof -
  have "\<exists>m. Compile ''test://foo/*'' = Inr m"
    unfolding Compile_Inr_iff by (simp add: segments_ok_def segment_ok_def byte_def)
  then obtain m where "Compile ''test://foo/*'' = Inr m" ..
  moreover from this have "Matches m (''test://foo/bar'' @ ''/'') \<longleftrightarrow> Matches m ''test://foo/bar''"
    by (rule trailing_separator_optional) (simp_all add: trailing_empty_def)
  ultimately show ?thesis by blast
qed

text \<open>
  A final double star extends a pattern to everything below what the pattern matches: if a
  pattern matches an input, the pattern followed by \<open>/**\<close> matches the input itself and the
  input continued by a separator and any text without a newline.
\<close>

theorem double_star_extends:
  assumes "Compile pattern = Inr m" and "Compile (pattern @ ''/**'') = Inr m'"
    and "Matches m input" and "10 \<notin> set (runes suffix)"
  shows "Matches m' input \<and> Matches m' (input @ ''/'' @ suffix)"
proof -
  let ?segs = "split_on (CHR ''/'') pattern" and ?comps = "map runes (split_on (CHR ''/'') input)"
  have segs: "split_on (CHR ''/'') (pattern @ ''/**'') = ?segs @ [''**'']"
    using split_slash_append [of pattern "''**''"] by simp
  have "segments_ok (?segs @ [''**''])"
    using assms(2) Compile_Inr_iff [of "pattern @ ''/**''"] by (auto simp: segs)
  then have "last ?segs \<noteq> ''**''"
    using segments_ok_double [of "?segs @ [''**'']"] by (metis butlast_snoc last_in_set split_on_not_Nil)
  moreover have "path_matches ?segs ?comps"
    using assms(3) by (simp add: Matches_components [OF assms(1)])
  moreover have "\<forall>part \<in> set (map runes (split_on (CHR ''/'') suffix)). 10 \<notin> set part"
    using assms(4) newline_in_split [of defaultSeparator "runes suffix"]
    unfolding runes_slash by (simp add: defaultSeparator_eq)
  ultimately show ?thesis
    using path_matches_double_star [of ?segs ?comps "[]"]
      path_matches_double_star [of ?segs ?comps "map runes (split_on (CHR ''/'') suffix)"]
    by (simp add: Matches_components [OF assms(2)] segs split_slash_append [simplified])
qed

theorem double_star_extends_witness:
  "\<exists>m m'. Compile ''foo'' = Inr m \<and> Compile (''foo'' @ ''/**'') = Inr m' \<and>
     Matches m' ''foo'' \<and> Matches m' (''foo'' @ ''/'' @ ''bar/baz'')"
proof -
  have "\<exists>m. Compile ''foo'' = Inr m" "\<exists>m. Compile (''foo'' @ ''/**'') = Inr m"
    unfolding Compile_Inr_iff by (simp_all add: segments_ok_def segment_ok_def byte_def)
  then obtain m m' where c: "Compile ''foo'' = Inr m" "Compile (''foo'' @ ''/**'') = Inr m'" by blast
  have "Matches m ''foo''" "10 \<notin> set (runes ''bar/baz'')"
    by (simp_all add: Matches_components [OF c(1)] path_matches_def component_matches_def byte_def)
  from double_star_extends [OF c this] c show ?thesis by blast
qed

text \<open>
  \<open>CompileList\<close> is all or nothing: it returns one matcher per pattern, in order, or the
  error of the first pattern that does not compile.
\<close>

theorem CompileList_all_or_first_error:
  "(CompileList patterns = Inr ms \<longleftrightarrow> list_all2 (\<lambda>p m. Compile p = Inr m) patterns ms) \<and>
   (CompileList patterns = Inl err \<longleftrightarrow>
     (case dropWhile (\<lambda>p. \<not> is_error (Compile p)) patterns of
        [] \<Rightarrow> False | p # _ \<Rightarrow> Compile p = Inl err))"
  by (simp add: CompileList_def CompileList_loop_Inr CompileList_loop_Inl)

text \<open>
  Three places where the matcher departs from the package documentation. A double star does
  not match a newline; the separator at the end is not optional when the pattern itself ends in
  one; and a separator that is a regexp metacharacter is written into the expression unquoted,
  so that with the separator \<open>.\<close> the pattern \<open>a.b\<close> matches \<open>axb\<close>.
\<close>

theorem wildcard_documentation_divergences:
  "(\<exists>m. Compile ''foo/**'' = Inr m \<and> Matches m ''foo/bar'' \<and> \<not> Matches m (''foo/b'' @ [CHR 0x0A] @ ''r'')) \<and>
   (\<exists>m. Compile ''foo/'' = Inr m \<and> Matches m ''foo/'' \<and> \<not> Matches m ''foo'') \<and>
   (\<exists>m. CompileWithSeparator ''a.b'' (byte (CHR ''.'')) = Inr m \<and> Matches m ''axb'')"
proof (intro conjI, goal_cases)
  case 1
  have "\<exists>m. Compile ''foo/**'' = Inr m"
    unfolding Compile_Inr_iff by (simp add: segments_ok_def segment_ok_def byte_def)
  then obtain m where m: "Compile ''foo/**'' = Inr m" ..
  then show ?case
    by (simp add: Matches_components [OF m] path_matches_def component_matches_def byte_def)
next
  case 2
  have "\<exists>m. Compile ''foo/'' = Inr m"
    unfolding Compile_Inr_iff by (simp add: segments_ok_def segment_ok_def byte_def)
  then obtain m where m: "Compile ''foo/'' = Inr m" ..
  then show ?case
    by (simp add: Matches_components [OF m] path_matches_def component_matches_def byte_def)
next
  case 3
  have a: "byte (CHR ''.'') < 0x80" by (simp add: byte_def)
  let ?m = "\<lparr>matcher_pattern = seq_regex [RBegin, lit 97, RRune AnyNotNL, lit 98,
      RQuest (RRune AnyNotNL), REnd]\<rparr>"
  have "CompileWithSeparator ''a.b'' (byte (CHR ''.'')) = Inr ?m"
    by (subst CompileWithSeparator_eq [OF a])
      (simp add: regex_of_pattern_def Compile_regexp_def byte_def special_def parse_regex.simps
        repeat_regex_def alt_regex_def lit_def)
  moreover have "Matches ?m ''axb''"
    by (simp add: Matches_def Match_regexp_def search_def byte_def lit_def)
  ultimately show ?case by blast
qed

end
