(* ===== verification/Auth.thy ===== *)
theory Auth
  imports Wildcard World
begin

text \<open>
  \<open>src/auth/auth.go\<close>: the access control list and the two callbacks that enforce it.

  Of an X.509 certificate only the fields that the program reads are kept. A \<open>*url.URL\<close> is
  observed through its \<open>String\<close> method only, so it is the text that method returns. The
  index expression \<open>verifiedChains[0][0]\<close> panics on an empty chain, and so does the model.

  The locale \<open>uri_patterns\<close> is the contract between this package and the \<open>wildcard\<close> package:
  compiled patterns behave as their specification says. What the access control list grants
  through URI patterns is proved from that contract, which the wildcard model then discharges.
\<close>


section \<open>Data\<close>

record ACL =
  AllowAll :: bool
  AllowedCNs :: "string list"
  AllowedOUs :: "string list"
  AllowedDNSs :: "string list"
  AllowedIPs :: "IP list"
  AllowedURIs :: "regexpMatcher list"

definition errUnauthorized :: error where
  "errUnauthorized = ''unauthorized: invalid principal, or principal not allowed''"


section \<open>net.IP.Equal\<close>

definition v4InV6Prefix :: string where
  "v4InV6Prefix = replicate 10 (CHR 0x00) @ [CHR 0xFF, CHR 0xFF]"

definition IP_Equal :: "IP \<Rightarrow> IP \<Rightarrow> bool" where
  "IP_Equal ip x \<longleftrightarrow>
     (if length ip = length x then ip = x
      else if length ip = 4 \<and> length x = 16 then take 12 x = v4InV6Prefix \<and> ip = drop 12 x
      else if length ip = 16 \<and> length x = 4 then take 12 ip = v4InV6Prefix \<and> drop 12 ip = x
      else False)"


section \<open>Set operations\<close>

fun contains :: "string list \<Rightarrow> string \<Rightarrow> bool" where
  "contains [] item \<longleftrightarrow> False"
| "contains (c # cs) item \<longleftrightarrow> (if c = item then True else contains cs item)"

fun intersects :: "string list \<Rightarrow> string list \<Rightarrow> bool" where
  "intersects [] right \<longleftrightarrow> False"
| "intersects (item # left) right \<longleftrightarrow> (if contains right item then True else intersects left right)"

fun intersectsIP_inner :: "IP \<Rightarrow> IP list \<Rightarrow> bool" where
  "intersectsIP_inner l [] \<longleftrightarrow> False"
| "intersectsIP_inner l (r # right) \<longleftrightarrow> (if IP_Equal r l then True else intersectsIP_inner l right)"

fun intersectsIP :: "IP list \<Rightarrow> IP list \<Rightarrow> bool" where
  "intersectsIP [] right \<longleftrightarrow> False"
| "intersectsIP (l # left) right \<longleftrightarrow>
     (if intersectsIP_inner l right then True else intersectsIP left right)"

fun intersectsURI_inner :: "regexpMatcher \<Rightarrow> URL list \<Rightarrow> bool" where
  "intersectsURI_inner l [] \<longleftrightarrow> False"
| "intersectsURI_inner l (r # right) \<longleftrightarrow>
     (if Matches l (URL_String r) then True else intersectsURI_inner l right)"

fun intersectsURI :: "regexpMatcher list \<Rightarrow> URL list \<Rightarrow> bool" where
  "intersectsURI [] right \<longleftrightarrow> False"
| "intersectsURI (l # left) right \<longleftrightarrow>
     (if intersectsURI_inner l right then True else intersectsURI left right)"


section \<open>The callbacks\<close>

definition VerifyPeerCertificateServer ::
  "ACL \<Rightarrow> string list \<Rightarrow> x509_Certificate list list \<Rightarrow> unit outcome" where
  "VerifyPeerCertificateServer a rawCerts verifiedChains =
     (if length verifiedChains = 0 then Failure errUnauthorized
      else if AllowAll a then Value ()
      else case hd verifiedChains of
        [] \<Rightarrow> Panic ''index out of range''
      | cert # _ \<Rightarrow>
          if contains (AllowedCNs a) (CommonName cert) then Value ()
          else if intersects (AllowedOUs a) (OrganizationalUnit cert) then Value ()
          else if intersects (AllowedDNSs a) (DNSNames cert) then Value ()
          else if intersectsIP (AllowedIPs a) (IPAddresses cert) then Value ()
          else if intersectsURI (AllowedURIs a) (URIs cert) then Value ()
          else Failure errUnauthorized)"

definition VerifyPeerCertificateClient ::
  "ACL \<Rightarrow> string list \<Rightarrow> x509_Certificate list list \<Rightarrow> unit outcome" where
  "VerifyPeerCertificateClient a rawCerts verifiedChains =
     (if length verifiedChains = 0 then Failure errUnauthorized
      else if length (AllowedCNs a) = 0 \<and> length (AllowedOUs a) = 0 \<and> length (AllowedDNSs a) = 0 \<and>
              length (AllowedURIs a) = 0 \<and> length (AllowedIPs a) = 0 then Value ()
      else case hd verifiedChains of
        [] \<Rightarrow> Panic ''index out of range''
      | cert # _ \<Rightarrow>
          if contains (AllowedCNs a) (CommonName cert) then Value ()
          else if intersects (AllowedOUs a) (OrganizationalUnit cert) then Value ()
          else if intersects (AllowedDNSs a) (DNSNames cert) then Value ()
          else if intersectsIP (AllowedIPs a) (IPAddresses cert) then Value ()
          else if intersectsURI (AllowedURIs a) (URIs cert) then Value ()
          else Failure errUnauthorized)"


section \<open>The set operations decide membership\<close>

lemma contains_iff [simp]: "contains s item \<longleftrightarrow> item \<in> set s"
  by (induction s) auto

lemma intersects_iff [simp]: "intersects left right \<longleftrightarrow> set left \<inter> set right \<noteq> {}"
  by (induction left) auto

lemma intersectsIP_inner_iff: "intersectsIP_inner l right \<longleftrightarrow> (\<exists>r \<in> set right. IP_Equal r l)"
  by (induction right) auto

lemma intersectsIP_iff [simp]:
  "intersectsIP left right \<longleftrightarrow> (\<exists>l \<in> set left. \<exists>r \<in> set right. IP_Equal r l)"
  by (induction left) (auto simp: intersectsIP_inner_iff)

lemma intersectsURI_inner_iff:
  "intersectsURI_inner l right \<longleftrightarrow> (\<exists>r \<in> set right. Matches l (URL_String r))"
  by (induction right) auto

lemma intersectsURI_iff [simp]:
  "intersectsURI left right \<longleftrightarrow> (\<exists>l \<in> set left. \<exists>r \<in> set right. Matches l (URL_String r))"
  by (induction left) (auto simp: intersectsURI_inner_iff)

text \<open>The attributes of a certificate that an access control list allows: its specification.\<close>

definition principal_allowed :: "ACL \<Rightarrow> x509_Certificate \<Rightarrow> bool" where
  "principal_allowed a cert \<longleftrightarrow>
     CommonName cert \<in> set (AllowedCNs a) \<or>
     set (OrganizationalUnit cert) \<inter> set (AllowedOUs a) \<noteq> {} \<or>
     set (DNSNames cert) \<inter> set (AllowedDNSs a) \<noteq> {} \<or>
     (\<exists>ip \<in> set (IPAddresses cert). \<exists>l \<in> set (AllowedIPs a). IP_Equal ip l) \<or>
     (\<exists>uri \<in> set (URIs cert). \<exists>l \<in> set (AllowedURIs a). Matches l (URL_String uri))"

definition empty_ACL :: "ACL \<Rightarrow> bool" where
  "empty_ACL a \<longleftrightarrow> AllowedCNs a = [] \<and> AllowedOUs a = [] \<and> AllowedDNSs a = [] \<and>
     AllowedIPs a = [] \<and> AllowedURIs a = []"

lemma principal_allowed_empty: "empty_ACL a \<Longrightarrow> \<not> principal_allowed a cert"
  by (simp add: empty_ACL_def principal_allowed_def)

lemma VerifyPeerCertificateServer_eq:
  "VerifyPeerCertificateServer a raw ((cert # chain) # vchains) =
   (if AllowAll a \<or> principal_allowed a cert then Value () else Failure errUnauthorized)"
  by (simp add: VerifyPeerCertificateServer_def principal_allowed_def) blast

lemma VerifyPeerCertificateClient_eq:
  "VerifyPeerCertificateClient a raw ((cert # chain) # vchains) =
   (if empty_ACL a \<or> principal_allowed a cert then Value () else Failure errUnauthorized)"
  by (simp add: VerifyPeerCertificateClient_def principal_allowed_def empty_ACL_def) blast

lemma Verify_no_chains [simp]:
  "VerifyPeerCertificateServer a raw [] = Failure errUnauthorized"
  "VerifyPeerCertificateClient a raw [] = Failure errUnauthorized"
  by (simp_all add: VerifyPeerCertificateServer_def VerifyPeerCertificateClient_def)


section \<open>The contract of the wildcard package\<close>

locale uri_patterns =
  fixes compile :: "string \<Rightarrow> 'm result"
    and compile_list :: "string list \<Rightarrow> 'm list result"
    and matches :: "'m \<Rightarrow> string \<Rightarrow> bool"
    and spec :: "string \<Rightarrow> string \<Rightarrow> bool"
  assumes compile_sound: "compile p = Inr m \<Longrightarrow> matches m s \<longleftrightarrow> spec p s"
    and compile_list_sound: "compile_list ps = Inr ms \<Longrightarrow> list_all2 (\<lambda>p m. compile p = Inr m) ps ms"
begin

lemma compiled_matches:
  assumes "compile_list ps = Inr ms"
  shows "(\<exists>m \<in> set ms. matches m s) \<longleftrightarrow> (\<exists>p \<in> set ps. spec p s)"
proof -
  have "list_all2 (\<lambda>p m. compile p = Inr m) ps ms"
    using assms by (rule compile_list_sound)
  then have "list_all2 (\<lambda>p m. matches m s \<longleftrightarrow> spec p s) ps ms"
    by (rule list_all2_mono) (rule compile_sound)
  then show ?thesis
    by (induction rule: list_all2_induct) auto
qed

lemma compiled_matches_any:
  "compile_list ps = Inr ms \<Longrightarrow>
   (\<exists>u \<in> U. \<exists>m \<in> set ms. matches m (f u)) \<longleftrightarrow> (\<exists>u \<in> U. \<exists>p \<in> set ps. spec p (f u))"
  using compiled_matches by blast

end

text \<open>The specification of a pattern on whole strings.\<close>

definition uri_matches :: "string \<Rightarrow> string \<Rightarrow> bool" where
  "uri_matches pattern uri \<longleftrightarrow>
     path_matches (split_on (CHR ''/'') pattern) (map runes (split_on (CHR ''/'') uri))"

interpretation wildcard_uris: uri_patterns Compile CompileList Matches uri_matches
  by unfold_locales
    (auto simp: uri_matches_def Matches_components CompileList_def CompileList_loop_Inr)


section \<open>The contract of a peer certificate callback\<close>

text \<open>
  What \<open>crypto/tls\<close> relies on: a callback for \<open>tls.Config.VerifyPeerCertificate\<close> refuses a
  connection without verified chains and otherwise decides by the leaf of the first chain.
\<close>

definition proper_chains :: "x509_Certificate list list \<Rightarrow> bool" where
  "proper_chains vchains \<longleftrightarrow> list_all (\<lambda>chain. chain \<noteq> []) vchains"

locale peer_verifier =
  fixes verify :: "string list \<Rightarrow> x509_Certificate list list \<Rightarrow> unit outcome"
    and grants :: "x509_Certificate \<Rightarrow> bool"
  assumes refuses_unverified: "verify raw [] = Failure errUnauthorized"
    and decides_by_leaf: "verify raw ((cert # chain) # vchains) =
      (if grants cert then Value () else Failure errUnauthorized)"
begin

lemma verify_iff:
  assumes "proper_chains vchains"
  shows "verify raw vchains = Value () \<longleftrightarrow> vchains \<noteq> [] \<and> grants (hd (hd vchains))"
  using assms by (cases vchains; cases "hd vchains") (auto simp: refuses_unverified decides_by_leaf proper_chains_def)

lemma verify_total:
  assumes "proper_chains vchains"
  shows "verify raw vchains = Value () \<or> verify raw vchains = Failure errUnauthorized"
  using assms by (cases vchains; cases "hd vchains") (auto simp: refuses_unverified decides_by_leaf proper_chains_def)

end

interpretation server_verifier: peer_verifier
  "VerifyPeerCertificateServer a" "\<lambda>cert. AllowAll a \<or> principal_allowed a cert" for a
  by unfold_locales (simp_all add: VerifyPeerCertificateServer_eq)

interpretation client_verifier: peer_verifier
  "VerifyPeerCertificateClient a" "\<lambda>cert. empty_ACL a \<or> principal_allowed a cert" for a
  by unfold_locales (simp_all add: VerifyPeerCertificateClient_eq)


section \<open>IP addresses\<close>

definition To16 :: "IP \<Rightarrow> IP" where
  "To16 ip = (if length ip = 4 then v4InV6Prefix @ ip else ip)"

definition is_ip :: "IP \<Rightarrow> bool" where
  "is_ip ip \<longleftrightarrow> length ip = 4 \<or> length ip = 16"

lemma length_v4InV6Prefix [simp]: "length v4InV6Prefix = 12"
  by (simp add: v4InV6Prefix_def)

lemma IP_Equal_To16:
  assumes "is_ip a" "is_ip b"
  shows "IP_Equal a b \<longleftrightarrow> To16 a = To16 b"
proof -
  have split: "length x = 16 \<Longrightarrow> v4InV6Prefix @ y = x \<longleftrightarrow> take 12 x = v4InV6Prefix \<and> y = drop 12 x" for x y
    by (metis append_eq_conv_conj length_v4InV6Prefix)
  show ?thesis
    using assms split [of b a] split [of a b]
    by (auto simp: is_ip_def IP_Equal_def To16_def)
qed


definition acl_le :: "ACL \<Rightarrow> ACL \<Rightarrow> bool" where
  "acl_le a b \<longleftrightarrow> (AllowAll a \<longrightarrow> AllowAll b) \<and> set (AllowedCNs a) \<subseteq> set (AllowedCNs b) \<and>
     set (AllowedOUs a) \<subseteq> set (AllowedOUs b) \<and> set (AllowedDNSs a) \<subseteq> set (AllowedDNSs b) \<and>
     set (AllowedIPs a) \<subseteq> set (AllowedIPs b) \<and> set (AllowedURIs a) \<subseteq> set (AllowedURIs b)"

lemma principal_allowed_mono: "acl_le a b \<Longrightarrow> principal_allowed a cert \<Longrightarrow> principal_allowed b cert"
  unfolding acl_le_def principal_allowed_def by blast


section \<open>Properties\<close>

text \<open>The certificate of the package's own tests, for the witnesses.\<close>

definition gopher :: x509_Certificate where
  "gopher = \<lparr>Raw = ''der'', PublicKey = ''key'', CommonName = ''gopher'', OrganizationalUnit = [''triangle'', ''circle''],
     DNSNames = [''circle''], IPAddresses = [v4InV6Prefix @ [CHR 0xC0, CHR 0xA8, CHR 0x63, CHR 0x64]],
     URIs = [URL ''scheme://valid/path'']\<rparr>"

definition no_ACL :: ACL where
  "no_ACL = \<lparr>AllowAll = False, AllowedCNs = [], AllowedOUs = [], AllowedDNSs = [], AllowedIPs = [],
     AllowedURIs = []\<rparr>"

lemma proper_gopher: "proper_chains [[gopher]]"
  by (simp add: proper_chains_def)

text \<open>
  C2. In server mode the callback accepts a peer exactly when there is a verified chain and
  either \<open>--allow-all\<close> is set or the leaf certificate has at least one attribute on the list:
  its common name, an organizational unit, a DNS, IP or URI subject alternative name. The
  options are a disjunction; nothing else grants access.
\<close>

theorem VerifyPeerCertificateServer_grants_iff:
  assumes "proper_chains vchains"
  shows "VerifyPeerCertificateServer a raw vchains = Value () \<longleftrightarrow>
    vchains \<noteq> [] \<and> (AllowAll a \<or> principal_allowed a (hd (hd vchains)))"
  using assms by (rule server_verifier.verify_iff)

theorem VerifyPeerCertificateServer_grants_iff_witness:
  "VerifyPeerCertificateServer (no_ACL\<lparr>AllowedOUs := [''circle'']\<rparr>) [] [[gopher]] = Value () \<and>
   VerifyPeerCertificateServer (no_ACL\<lparr>AllowedOUs := [''test'']\<rparr>) [] [[gopher]] \<noteq> Value ()"
  unfolding VerifyPeerCertificateServer_grants_iff [OF proper_gopher]
  by (simp add: principal_allowed_def no_ACL_def gopher_def)

text \<open>
  The server side fails closed: with an empty list and without \<open>--allow-all\<close> every peer is
  refused with the authorization error, whatever certificate it presents.
\<close>

theorem VerifyPeerCertificateServer_fails_closed:
  assumes "proper_chains vchains" and "empty_ACL a" and "\<not> AllowAll a"
  shows "VerifyPeerCertificateServer a raw vchains = Failure errUnauthorized"
  using server_verifier.verify_total [OF assms(1), of a raw]
    server_verifier.verify_iff [OF assms(1), of a raw] principal_allowed_empty [OF assms(2)] assms(3)
  by auto

theorem VerifyPeerCertificateServer_fails_closed_witness:
  "VerifyPeerCertificateServer no_ACL [] [[gopher]] = Failure errUnauthorized"
  by (rule VerifyPeerCertificateServer_fails_closed [OF proper_gopher])
    (simp_all add: empty_ACL_def no_ACL_def)

text \<open>
  C17. In client mode the callback accepts a server exactly when there is a verified chain and
  the list is empty (hostname verification has already taken place) or the leaf has an attribute
  on the list. The flag \<open>AllowAll\<close> plays no part.
\<close>

theorem VerifyPeerCertificateClient_grants_iff:
  assumes "proper_chains vchains"
  shows "VerifyPeerCertificateClient a raw vchains = Value () \<longleftrightarrow>
    vchains \<noteq> [] \<and> (empty_ACL a \<or> principal_allowed a (hd (hd vchains)))"
  using assms by (rule client_verifier.verify_iff)

theorem VerifyPeerCertificateClient_grants_iff_witness:
  "VerifyPeerCertificateClient no_ACL [] [[gopher]] = Value () \<and>
   VerifyPeerCertificateClient (no_ACL\<lparr>AllowedCNs := [''test'']\<rparr>) [] [[gopher]] \<noteq> Value ()"
  unfolding VerifyPeerCertificateClient_grants_iff [OF proper_gopher]
  by (simp add: principal_allowed_def empty_ACL_def no_ACL_def gopher_def)

text \<open>
  C34. From the \<open>--allow-uri\<close> flags to the decision: when the URI patterns of the flags compile
  and no other attribute is listed, the server accepts a verified peer exactly when one of its
  URI names matches one of the patterns in the sense of the path specification.
\<close>

theorem allowed_uri_patterns_decide:
  assumes "CompileList patterns = Inr ms" and "proper_chains vchains" and "vchains \<noteq> []"
  shows "VerifyPeerCertificateServer (no_ACL\<lparr>AllowedURIs := ms\<rparr>) raw vchains = Value () \<longleftrightarrow>
    (\<exists>uri \<in> set (URIs (hd (hd vchains))). \<exists>pattern \<in> set patterns. uri_matches pattern (URL_String uri))"
proof -
  have "VerifyPeerCertificateServer (no_ACL\<lparr>AllowedURIs := ms\<rparr>) raw vchains = Value () \<longleftrightarrow>
      (\<exists>uri \<in> set (URIs (hd (hd vchains))). \<exists>m \<in> set ms. Matches m (URL_String uri))"
    using assms(3) by (simp add: server_verifier.verify_iff [OF assms(2)] principal_allowed_def no_ACL_def)
  also have "\<dots> \<longleftrightarrow> (\<exists>uri \<in> set (URIs (hd (hd vchains))). \<exists>p \<in> set patterns. uri_matches p (URL_String uri))"
    using assms(1) by (rule wildcard_uris.compiled_matches_any)
  finally show ?thesis .
qed

theorem allowed_uri_patterns_decide_witness:
  "\<exists>ms. CompileList [''scheme://valid/*''] = Inr ms \<and>
     VerifyPeerCertificateServer (no_ACL\<lparr>AllowedURIs := ms\<rparr>) [] [[gopher]] = Value ()"
proof -
  have "\<exists>m. Compile ''scheme://valid/*'' = Inr m"
    unfolding Compile_Inr_iff by (simp add: segments_ok_def segment_ok_def byte_def)
  then obtain m where "Compile ''scheme://valid/*'' = Inr m" ..
  then have ms: "CompileList [''scheme://valid/*''] = Inr [m]"
    by (simp add: CompileList_def)
  moreover have "VerifyPeerCertificateServer (no_ACL\<lparr>AllowedURIs := [m]\<rparr>) [] [[gopher]] = Value ()"
    unfolding allowed_uri_patterns_decide [OF ms proper_gopher list.simps(3)]
    by (simp add: gopher_def uri_matches_def path_matches_def component_matches_def byte_def)
  ultimately show ?thesis by blast
qed

text \<open>
  The comparison of IP addresses is the equality of the 16-byte forms: an IPv4 address is
  equal to its IPv4-in-IPv6 form and to nothing else, so the check is an equivalence relation on
  addresses of either length.
\<close>

theorem IP_Equal_is_To16_equality:
  assumes "is_ip a" and "is_ip b"
  shows "IP_Equal a b \<longleftrightarrow> To16 a = To16 b"
  using assms by (rule IP_Equal_To16)

theorem IP_Equal_is_To16_equality_witness:
  "IP_Equal [CHR 0x7F, CHR 0x00, CHR 0x00, CHR 0x01] (v4InV6Prefix @ [CHR 0x7F, CHR 0x00, CHR 0x00, CHR 0x01])"
  by (subst IP_Equal_is_To16_equality) (simp_all add: is_ip_def To16_def)

text \<open>
  The server list is monotone: adding names, addresses or URI patterns to the list (or
  setting \<open>--allow-all\<close>) never locks out a peer that was accepted before.
\<close>

theorem VerifyPeerCertificateServer_monotone:
  assumes "proper_chains vchains" and "acl_le a b"
    and "VerifyPeerCertificateServer a raw vchains = Value ()"
  shows "VerifyPeerCertificateServer b raw vchains = Value ()"
  using assms(2,3) principal_allowed_mono [OF assms(2)]
  by (auto simp: server_verifier.verify_iff [OF assms(1)] acl_le_def)

theorem VerifyPeerCertificateServer_monotone_witness:
  "VerifyPeerCertificateServer (no_ACL\<lparr>AllowedCNs := [''test'', ''gopher'']\<rparr>) [] [[gopher]] = Value ()"
  by (rule VerifyPeerCertificateServer_monotone [OF proper_gopher, of "no_ACL\<lparr>AllowedCNs := [''gopher'']\<rparr>"])
    (simp_all add: acl_le_def no_ACL_def VerifyPeerCertificateServer_eq principal_allowed_def gopher_def)

end
