(* ===== verification/Tls_Config.thy ===== *)
theory Tls_Config
  imports Flags Auth
begin

text \<open>
  \<open>src/tls.go\<close>: the table of cipher suites, the CA bundle, the TLS configuration and the choice
  of the certificate source; and what \<open>crypto/tls\<close> does with such a configuration when it
  authenticates a peer.

  Identifiers of cipher suites, curves and protocol versions are 16-bit words with the values
  of the TLS registries. A callback of \<open>tls.Config\<close> that is a method of the program's
  certificate object is a function of the state of that object at the time of the call.
\<close>

unbundle bit_operations_syntax


section \<open>Cipher suites\<close>

definition TLS_ECDHE_ECDSA_WITH_AES_128_GCM_SHA256 :: "16 word" where
  "TLS_ECDHE_ECDSA_WITH_AES_128_GCM_SHA256 = 0xc02b"

definition TLS_ECDHE_RSA_WITH_AES_128_GCM_SHA256 :: "16 word" where
  "TLS_ECDHE_RSA_WITH_AES_128_GCM_SHA256 = 0xc02f"

definition TLS_ECDHE_ECDSA_WITH_AES_256_GCM_SHA384 :: "16 word" where
  "TLS_ECDHE_ECDSA_WITH_AES_256_GCM_SHA384 = 0xc02c"

definition TLS_ECDHE_RSA_WITH_AES_256_GCM_SHA384 :: "16 word" where
  "TLS_ECDHE_RSA_WITH_AES_256_GCM_SHA384 = 0xc030"

definition TLS_ECDHE_ECDSA_WITH_CHACHA20_POLY1305 :: "16 word" where
  "TLS_ECDHE_ECDSA_WITH_CHACHA20_POLY1305 = 0xcca9"

definition TLS_ECDHE_RSA_WITH_CHACHA20_POLY1305 :: "16 word" where
  "TLS_ECDHE_RSA_WITH_CHACHA20_POLY1305 = 0xcca8"

definition TLS_ECDHE_ECDSA_WITH_AES_128_CBC_SHA256 :: "16 word" where
  "TLS_ECDHE_ECDSA_WITH_AES_128_CBC_SHA256 = 0xc023"

definition TLS_ECDHE_RSA_WITH_AES_128_CBC_SHA256 :: "16 word" where
  "TLS_ECDHE_RSA_WITH_AES_128_CBC_SHA256 = 0xc027"

definition TLS_ECDHE_ECDSA_WITH_AES_128_CBC_SHA :: "16 word" where
  "TLS_ECDHE_ECDSA_WITH_AES_128_CBC_SHA = 0xc009"

definition TLS_ECDHE_RSA_WITH_AES_128_CBC_SHA :: "16 word" where
  "TLS_ECDHE_RSA_WITH_AES_128_CBC_SHA = 0xc013"

definition TLS_ECDHE_ECDSA_WITH_AES_256_CBC_SHA :: "16 word" where
  "TLS_ECDHE_ECDSA_WITH_AES_256_CBC_SHA = 0xc00a"

definition TLS_ECDHE_RSA_WITH_AES_256_CBC_SHA :: "16 word" where
  "TLS_ECDHE_RSA_WITH_AES_256_CBC_SHA = 0xc014"

definition TLS_ECDHE_RSA_WITH_3DES_EDE_CBC_SHA :: "16 word" where
  "TLS_ECDHE_RSA_WITH_3DES_EDE_CBC_SHA = 0xc012"

definition TLS_RSA_WITH_AES_128_GCM_SHA256 :: "16 word" where
  "TLS_RSA_WITH_AES_128_GCM_SHA256 = 0x009c"

definition TLS_RSA_WITH_AES_256_GCM_SHA384 :: "16 word" where
  "TLS_RSA_WITH_AES_256_GCM_SHA384 = 0x009d"

definition TLS_RSA_WITH_AES_128_CBC_SHA256 :: "16 word" where
  "TLS_RSA_WITH_AES_128_CBC_SHA256 = 0x003c"

definition TLS_RSA_WITH_AES_128_CBC_SHA :: "16 word" where
  "TLS_RSA_WITH_AES_128_CBC_SHA = 0x002f"

definition TLS_RSA_WITH_AES_256_CBC_SHA :: "16 word" where
  "TLS_RSA_WITH_AES_256_CBC_SHA = 0x0035"

definition TLS_RSA_WITH_3DES_EDE_CBC_SHA :: "16 word" where
  "TLS_RSA_WITH_3DES_EDE_CBC_SHA = 0x000a"

definition cipherSuites :: "string \<Rightarrow> 16 word list option" where
  "cipherSuites =
     [''AES'' \<mapsto>
        [TLS_ECDHE_ECDSA_WITH_AES_128_GCM_SHA256, TLS_ECDHE_RSA_WITH_AES_128_GCM_SHA256,
         TLS_ECDHE_ECDSA_WITH_AES_256_GCM_SHA384, TLS_ECDHE_RSA_WITH_AES_256_GCM_SHA384],
      ''CHACHA'' \<mapsto>
        [TLS_ECDHE_ECDSA_WITH_CHACHA20_POLY1305, TLS_ECDHE_RSA_WITH_CHACHA20_POLY1305],
      ''CBC'' \<mapsto>
        [TLS_ECDHE_ECDSA_WITH_AES_128_CBC_SHA256, TLS_ECDHE_RSA_WITH_AES_128_CBC_SHA256,
         TLS_ECDHE_ECDSA_WITH_AES_128_CBC_SHA, TLS_ECDHE_RSA_WITH_AES_128_CBC_SHA,
         TLS_ECDHE_ECDSA_WITH_AES_256_CBC_SHA, TLS_ECDHE_RSA_WITH_AES_256_CBC_SHA,
         TLS_ECDHE_RSA_WITH_3DES_EDE_CBC_SHA],
      ''RSA'' \<mapsto>
        [TLS_RSA_WITH_AES_128_GCM_SHA256, TLS_RSA_WITH_AES_256_GCM_SHA384,
         TLS_RSA_WITH_AES_128_CBC_SHA256, TLS_RSA_WITH_AES_128_CBC_SHA,
         TLS_RSA_WITH_AES_256_CBC_SHA, TLS_RSA_WITH_3DES_EDE_CBC_SHA]]"

lemmas suite_defs =
  TLS_ECDHE_ECDSA_WITH_AES_128_GCM_SHA256_def TLS_ECDHE_RSA_WITH_AES_128_GCM_SHA256_def
  TLS_ECDHE_ECDSA_WITH_AES_256_GCM_SHA384_def TLS_ECDHE_RSA_WITH_AES_256_GCM_SHA384_def
  TLS_ECDHE_ECDSA_WITH_CHACHA20_POLY1305_def TLS_ECDHE_RSA_WITH_CHACHA20_POLY1305_def
  TLS_ECDHE_ECDSA_WITH_AES_128_CBC_SHA256_def TLS_ECDHE_RSA_WITH_AES_128_CBC_SHA256_def
  TLS_ECDHE_ECDSA_WITH_AES_128_CBC_SHA_def TLS_ECDHE_RSA_WITH_AES_128_CBC_SHA_def
  TLS_ECDHE_ECDSA_WITH_AES_256_CBC_SHA_def TLS_ECDHE_RSA_WITH_AES_256_CBC_SHA_def
  TLS_ECDHE_RSA_WITH_3DES_EDE_CBC_SHA_def TLS_RSA_WITH_AES_128_GCM_SHA256_def
  TLS_RSA_WITH_AES_256_GCM_SHA384_def TLS_RSA_WITH_AES_128_CBC_SHA256_def
  TLS_RSA_WITH_AES_128_CBC_SHA_def TLS_RSA_WITH_AES_256_CBC_SHA_def
  TLS_RSA_WITH_3DES_EDE_CBC_SHA_def


section \<open>The certificate source\<close>

definition nil_dereference :: string where
  "nil_dereference = ''invalid memory address or nil pointer dereference''"

definition buildCertificateFromPKCS11 ::
  "build \<Rightarrow> world \<Rightarrow> flags \<Rightarrow> string \<Rightarrow> Certificate outcome" where
  "buildCertificateFromPKCS11 b w f certPath =
     (case (pkcs11Module f, pkcs11TokenLabel f, pkcs11PIN f) of
        (Some module, Some label, Some pin) \<Rightarrow> CertificateFromPKCS11Module b w certPath module label pin
      | _ \<Rightarrow> Panic nil_dereference)"

definition buildCertificateFromCertstore :: "build \<Rightarrow> world \<Rightarrow> flags \<Rightarrow> Certificate outcome" where
  "buildCertificateFromCertstore b w f =
     (case keychainIdentity f of
        Some cn \<Rightarrow> CertificateFromKeychainIdentity b w cn
      | None \<Rightarrow> Panic nil_dereference)"

fun map_outcome :: "('a \<Rightarrow> 'b) \<Rightarrow> 'a outcome \<Rightarrow> 'b outcome" where
  "map_outcome g (Value x) = Value (g x)"
| "map_outcome g (Failure err) = Failure err"
| "map_outcome g (Panic p) = Panic p"

text \<open>\<open>Value None\<close> is the pair of a nil certificate and a nil error.\<close>

definition buildCertificate ::
  "build \<Rightarrow> world \<Rightarrow> flags \<Rightarrow> string \<Rightarrow> string \<Rightarrow> Certificate option outcome" where
  "buildCertificate b w f path pass =
     (if hasPKCS11 f then map_outcome Some (buildCertificateFromPKCS11 b w f path)
      else if hasKeychainIdentity f then map_outcome Some (buildCertificateFromCertstore b w f)
      else if path \<noteq> [] then map_outcome Some (CertificateFromKeystore w path pass)
      else Value None)"


section \<open>The TLS configuration\<close>

datatype ClientAuthType =
    NoClientCert | RequestClientCert | RequireAnyClientCert | VerifyClientCertIfGiven
  | RequireAndVerifyClientCert

text \<open>The values are numbered in this order, and \<open>crypto/tls\<close> compares them by their numbers.\<close>

fun ClientAuthType_number :: "ClientAuthType \<Rightarrow> nat" where
  "ClientAuthType_number NoClientCert = 0" | "ClientAuthType_number RequestClientCert = 1"
| "ClientAuthType_number RequireAnyClientCert = 2" | "ClientAuthType_number VerifyClientCertIfGiven = 3"
| "ClientAuthType_number RequireAndVerifyClientCert = 4"

instantiation ClientAuthType :: linorder
begin

definition less_eq_ClientAuthType :: "ClientAuthType \<Rightarrow> ClientAuthType \<Rightarrow> bool" where
  "less_eq_ClientAuthType a b \<longleftrightarrow> ClientAuthType_number a \<le> ClientAuthType_number b"

definition less_ClientAuthType :: "ClientAuthType \<Rightarrow> ClientAuthType \<Rightarrow> bool" where
  "less_ClientAuthType a b \<longleftrightarrow> ClientAuthType_number a < ClientAuthType_number b"

instance
proof
  fix a b :: ClientAuthType
  show "a \<le> b \<Longrightarrow> b \<le> a \<Longrightarrow> a = b"
    by (cases a; cases b) (simp_all add: less_eq_ClientAuthType_def)
qed (auto simp: less_eq_ClientAuthType_def less_ClientAuthType_def)

end

lemmas ClientAuthType_order [simp] = less_eq_ClientAuthType_def less_ClientAuthType_def

definition requiresClientCert :: "ClientAuthType \<Rightarrow> bool" where
  "requiresClientCert auth \<longleftrightarrow> auth \<in> {RequireAnyClientCert, RequireAndVerifyClientCert}"

definition VersionTLS10 :: "16 word" where "VersionTLS10 = 0x0301"
definition X25519 :: "16 word" where "X25519 = 29"
definition CurveP256 :: "16 word" where "CurveP256 = 23"
definition CurveP384 :: "16 word" where "CurveP384 = 24"
definition CurveP521 :: "16 word" where "CurveP521 = 25"

record tls_Config =
  RootCAs :: CertPool
  ClientCAs :: CertPool
  PreferServerCipherSuites :: bool
  ClientAuth :: ClientAuthType
  MinVersion :: "16 word"
  CipherSuites :: "16 word list"
  CurvePreferences :: "16 word list"
  ServerName :: string
  config_GetCertificate :: "(Certificate \<Rightarrow> tls_Certificate option result) option"
  config_GetClientCertificate :: "(Certificate \<Rightarrow> tls_Certificate option result) option"
  config_VerifyPeerCertificate ::
    "(string list \<Rightarrow> x509_Certificate list list \<Rightarrow> unit outcome) option"

definition caBundle :: "world \<Rightarrow> string \<Rightarrow> CertPool result" where
  "caBundle w path =
     (if path = [] then SystemCertPool w
      else case ReadFile w path of
        Inl err \<Rightarrow> Inl err
      | Inr bytes \<Rightarrow>
          (case AppendCertsFromPEM w bytes of
             None \<Rightarrow> Inl ''unable to read certificates from CA bundle''
           | Some bundle \<Rightarrow> Inr bundle))"

fun buildConfig_suites :: "string list \<Rightarrow> 16 word list \<Rightarrow> 16 word list result" where
  "buildConfig_suites [] suites = Inr suites"
| "buildConfig_suites (suite # rest) suites =
     (case cipherSuites (TrimSpace suite) of
        None \<Rightarrow> Inl (''invalid cipher suite '' @ quoted suite @ '' selected'')
      | Some ciphers \<Rightarrow> buildConfig_suites rest (suites @ ciphers))"

definition buildConfig :: "world \<Rightarrow> string \<Rightarrow> string \<Rightarrow> tls_Config result" where
  "buildConfig w suite_names bundlePath =
     (case caBundle w bundlePath of
        Inl err \<Rightarrow> Inl err
      | Inr ca \<Rightarrow>
          (case buildConfig_suites (Split suite_names '','') [] of
             Inl err \<Rightarrow> Inl err
           | Inr suites \<Rightarrow> Inr
               \<lparr>RootCAs = ca, ClientCAs = ca, PreferServerCipherSuites = True,
                ClientAuth = NoClientCert, MinVersion = VersionTLS10, CipherSuites = suites,
                CurvePreferences = [X25519, CurveP256, CurveP384, CurveP521],
                ServerName = [], config_GetCertificate = None, config_GetClientCertificate = None,
                config_VerifyPeerCertificate = None\<rparr>))"


section \<open>Peer authentication in crypto/tls\<close>

text \<open>
  What \<open>crypto/tls\<close> documents for \<open>ClientAuth\<close> and \<open>VerifyPeerCertificate\<close>: a server asks
  for a client certificate from \<open>RequestClientCert\<close> on, insists on one for the two
  \<open>Require\<close> settings, verifies a given certificate from \<open>VerifyClientCertIfGiven\<close> on, and calls
  the callback after that, with the verified chains or with none. Without a request there is no
  certificate to process and the callback is not called.
\<close>

definition call_verifier ::
  "tls_Config \<Rightarrow> string list \<Rightarrow> x509_Certificate list list \<Rightarrow> unit outcome" where
  "call_verifier config certs vchains =
     (case config_VerifyPeerCertificate config of
        None \<Rightarrow> Value ()
      | Some verify \<Rightarrow> verify certs vchains)"

definition server_authenticates :: "world \<Rightarrow> tls_Config \<Rightarrow> string list \<Rightarrow> unit outcome" where
  "server_authenticates w config certs =
     (let auth = ClientAuth config in
      if \<not> RequestClientCert \<le> auth then Value ()
      else if certs = [] \<and> requiresClientCert auth
      then Failure ''tls: client did not provide a certificate''
      else if VerifyClientCertIfGiven \<le> auth \<and> certs \<noteq> []
      then (case x509_Verify w (ClientCAs config) [] certs of
              Inl err \<Rightarrow> Failure err
            | Inr vchains \<Rightarrow> call_verifier config certs vchains)
      else call_verifier config certs [])"

text \<open>
  A client (without \<open>InsecureSkipVerify\<close>, which the program never sets) needs a server name,
  verifies the presented certificates against the roots for that name, and then calls the
  callback.
\<close>

definition client_authenticates :: "world \<Rightarrow> tls_Config \<Rightarrow> string list \<Rightarrow> unit outcome" where
  "client_authenticates w config certs =
     (if ServerName config = []
      then Failure ''tls: either ServerName or InsecureSkipVerify must be specified in the tls.Config''
      else if certs = [] then Failure ''tls: received unexpected handshake message''
      else case x509_Verify w (RootCAs config) (ServerName config) certs of
        Inl err \<Rightarrow> Failure err
      | Inr vchains \<Rightarrow> call_verifier config certs vchains)"


section \<open>Lemmas\<close>

lemma buildConfig_suites_Inr:
  "buildConfig_suites names acc = Inr suites \<longleftrightarrow>
   (\<exists>groups. list_all2 (\<lambda>n g. cipherSuites (TrimSpace n) = Some g) names groups \<and> suites = acc @ concat groups)"
proof (induction names arbitrary: acc)
  case (Cons n names)
  show ?case
    by (cases "cipherSuites (TrimSpace n)") (auto simp: Cons.IH list_all2_Cons1)
qed auto

lemma buildConfig_suites_is_error:
  "is_error (buildConfig_suites names acc) \<longleftrightarrow> \<not> list_all (\<lambda>n. TrimSpace n \<in> dom cipherSuites) names"
  by (induction names arbitrary: acc) (auto split: option.splits)

lemma buildConfig_fields:
  assumes "buildConfig w names path = Inr config"
  shows "ClientAuth config = NoClientCert" "MinVersion config = VersionTLS10"
    "config_GetCertificate config = None" "config_GetClientCertificate config = None"
    "config_VerifyPeerCertificate config = None" "ServerName config = []"
    "caBundle w path = Inr (RootCAs config)" "ClientCAs config = RootCAs config"
  using assms by (auto simp: buildConfig_def split: sum.splits)

lemma buildConfig_cipher_suites:
  "(\<exists>config. buildConfig w names path = Inr config \<and> CipherSuites config = suites) \<longleftrightarrow>
   \<not> is_error (caBundle w path) \<and>
   (\<exists>groups. list_all2 (\<lambda>n g. cipherSuites (TrimSpace n) = Some g) (split_on (CHR '','') names) groups \<and>
      suites = concat groups)"
  using buildConfig_suites_Inr [of "split_on (CHR '','') names" "[]"]
  by (cases "caBundle w path"; cases "buildConfig_suites (split_on (CHR '','') names) []")
    (auto simp: buildConfig_def Split_char)

lemma cipherSuites_Some_iff:
  "cipherSuites n = Some g \<longleftrightarrow>
   n = ''AES'' \<and> g = [0xc02b, 0xc02f, 0xc02c, 0xc030] \<or>
   n = ''CHACHA'' \<and> g = [0xcca9, 0xcca8] \<or>
   n = ''CBC'' \<and> g = [0xc023, 0xc027, 0xc009, 0xc013, 0xc00a, 0xc014, 0xc012] \<or>
   n = ''RSA'' \<and> g = [0x9c, 0x9d, 0x3c, 0x2f, 0x35, 0xa]"
  by (auto simp: cipherSuites_def suite_defs)

lemma cipherSuites_distinct: "cipherSuites n = Some g \<Longrightarrow> g \<noteq> [] \<and> distinct g"
  by (auto simp: cipherSuites_Some_iff)

lemma cipherSuites_disjoint:
  "cipherSuites n = Some g \<Longrightarrow> cipherSuites m = Some h \<Longrightarrow> n \<noteq> m \<Longrightarrow> set g \<inter> set h = {}"
  unfolding cipherSuites_Some_iff by (elim disjE conjE) simp_all

lemma distinct_suites:
  assumes "list_all2 (\<lambda>n g. cipherSuites (t n) = Some g) names groups"
  shows "distinct (concat groups) \<longleftrightarrow> distinct (map t names)"
  using assms
proof (induction rule: list_all2_induct)
  case (Cons n names g groups)
  have "set g \<inter> set (concat groups) = {} \<longleftrightarrow> t n \<notin> t ` set names"
  proof
    assume disj: "set g \<inter> set (concat groups) = {}"
    have "g \<notin> set groups"
      using disj cipherSuites_distinct [OF Cons.hyps(1)] by (cases g) auto
    then show "t n \<notin> t ` set names"
      using list_all2_ex1 [OF Cons.hyps(2)] Cons.hyps(1) by force
  next
    assume new: "t n \<notin> t ` set names"
    have "set g \<inter> set h = {}" if h: "h \<in> set groups" for h
    proof -
      obtain m where "m \<in> set names" "cipherSuites (t m) = Some h"
        using list_all2_ex2 [OF Cons.hyps(2) h] by blast
      moreover from this(1) new have "t n \<noteq> t m" by auto
      ultimately show ?thesis using Cons.hyps(1) by (intro cipherSuites_disjoint)
    qed
    then show "set g \<inter> set (concat groups) = {}" by auto
  qed
  with Cons.IH cipherSuites_distinct [OF Cons.hyps(1)] show ?case by simp blast
qed simp

lemma reload_or_fail_Value: "reload_or_fail wrap r = Value c \<longleftrightarrow> (\<exists>s. r = (s, Value ()) \<and> c = wrap s)"
  by (cases r; cases "snd r") (auto simp: reload_or_fail_def)

lemma Reload_Value_cached:
  "keystore_Reload w k = (k', Value ()) \<Longrightarrow> cached (Keystore k') \<noteq> None"
  "pkcs11_Reload w p = (p', Value ()) \<Longrightarrow> cached (PKCS11 p') \<noteq> None"
  "certstore_Reload w s = (s', Value ()) \<Longrightarrow> cached (Certstore s') \<noteq> None"
  using keystore.success_serves [of w k] pkcs11.success_serves [of w p] certstore.success_serves [of w s]
  by simp_all

lemma constructors_load:
  "CertificateFromPEMFiles w certPath keyPath = Value c \<Longrightarrow> cached c \<noteq> None"
  "CertificateFromKeystore w path password = Value c \<Longrightarrow> cached c \<noteq> None"
  "CertificateFromPKCS11Module b w certPath module label pin = Value c \<Longrightarrow> cached c \<noteq> None"
  "CertificateFromKeychainIdentity b w cn = Value c \<Longrightarrow> cached c \<noteq> None"
  unfolding CertificateFromPEMFiles_def CertificateFromKeystore_def CertificateFromPKCS11Module_def
    CertificateFromKeychainIdentity_def
  by (auto simp: reload_or_fail_Value split: if_splits simp del: not_None_eq cached.simps
      dest: Reload_Value_cached)

lemma map_outcome_Value [simp]: "map_outcome g r = Value y \<longleftrightarrow> (\<exists>x. r = Value x \<and> y = g x)"
  by (cases r) auto

lemma buildCertificate_loaded:
  "buildCertificate b w f path pass = Value (Some c) \<Longrightarrow> cached c \<noteq> None"
  by (auto simp: buildCertificate_def buildCertificateFromPKCS11_def buildCertificateFromCertstore_def
      simp del: not_None_eq split: if_splits option.splits dest: constructors_load)

lemma buildCertificate_None:
  "buildCertificate b w f path pass = Value None \<longleftrightarrow> \<not> hasPKCS11 f \<and> \<not> hasKeychainIdentity f \<and> path = []"
  by (auto simp: buildCertificate_def)


section \<open>Properties\<close>

text \<open>
  C35. A TLS configuration is built exactly when the CA bundle loads and every comma-separated
  name, with white space trimmed, is one of the known groups; the enabled cipher suites are then
  the suites of the named groups, in the order in which they are named.
\<close>

theorem buildConfig_cipher_preference:
  "(\<exists>config. buildConfig w names path = Inr config \<and> CipherSuites config = suites) \<longleftrightarrow>
   \<not> is_error (caBundle w path) \<and>
   (\<exists>groups. list_all2 (\<lambda>n g. cipherSuites (TrimSpace n) = Some g) (split_on (CHR '','') names) groups \<and>
      suites = concat groups)"
  by (rule buildConfig_cipher_suites)

text \<open>
  A configuration offers a cipher suite twice only if a group is named twice: the four groups
  of the table are disjoint and without repetitions as 16-bit identifiers.
\<close>

theorem buildConfig_suites_distinct:
  assumes "buildConfig w names path = Inr config"
  shows "distinct (CipherSuites config) \<longleftrightarrow> distinct (map TrimSpace (split_on (CHR '','') names))"
proof -
  obtain groups where g: "list_all2 (\<lambda>n g. cipherSuites (TrimSpace n) = Some g) (split_on (CHR '','') names) groups"
    and "CipherSuites config = concat groups"
    using assms buildConfig_cipher_suites by blast
  then show ?thesis by (simp add: distinct_suites [OF g])
qed

lemma TrimSpace_groups:
  "TrimSpace ''AES'' = ''AES''" "TrimSpace ''CHACHA'' = ''CHACHA''"
  by (simp_all add: TrimSpace_def IsSpace_def byte_def)

lemma sample_buildConfig: "\<exists>config. buildConfig sample_world ''AES,CHACHA'' ''ca.pem'' = Inr config"
  by (simp add: buildConfig_def caBundle_def sample_worlds Split_char cipherSuites_def TrimSpace_groups)

theorem buildConfig_suites_distinct_witness:
  "\<exists>config. buildConfig sample_world ''AES,CHACHA'' ''ca.pem'' = Inr config \<and> distinct (CipherSuites config)"
proof -
  obtain config where c: "buildConfig sample_world ''AES,CHACHA'' ''ca.pem'' = Inr config"
    using sample_buildConfig by blast
  have "distinct (CipherSuites config)"
    unfolding buildConfig_suites_distinct [OF c] by (simp add: TrimSpace_groups)
  with c show ?thesis by blast
qed

text \<open>
  The certificate source: without PKCS\#11 module, keychain identity and keystore path there
  is no certificate and no error; in every other case a result is a certificate that is loaded
  and stays loaded, whatever later reloads do. A keychain or PKCS\#11 flag of a build that does
  not support it is ignored.
\<close>

theorem buildCertificate_source:
  assumes "buildCertificate b w (init_flags b f) path pass = Value r"
  shows "(case r of
      None \<Rightarrow> \<not> (with_pkcs11 b \<and> hasPKCS11 f) \<and> \<not> (with_keychain b \<and> hasKeychainIdentity f) \<and> path = []
    | Some c \<Rightarrow> (with_pkcs11 b \<and> hasPKCS11 f \<or> with_keychain b \<and> hasKeychainIdentity f \<or> path \<noteq> []) \<and>
        (\<forall>ws. GetCertificate (reloads Reload ws c) \<noteq> Inr None))"
  using assms buildCertificate_None [of b w "init_flags b f" path pass]
    certificate.stays_loaded_all [OF buildCertificate_loaded [of b w "init_flags b f" path pass]]
  by (auto simp: hasPKCS11_init hasKeychainIdentity_init split: option.splits)

definition sample_build :: build where
  "sample_build = \<lparr>with_pkcs11 = True, with_keychain = False, on_windows = False\<rparr>"

lemma sample_sources:
  "\<not> hasPKCS11 (init_flags sample_build default_flags)"
  "\<not> hasKeychainIdentity (init_flags sample_build default_flags)"
  unfolding hasPKCS11_init hasKeychainIdentity_init
  by (simp_all add: hasPKCS11_def hasKeychainIdentity_def default_flags_def)

lemma sample_keystore:
  "\<exists>c. CertificateFromKeystore sample_world ''server.p12'' pass = Value c"
  by (simp add: CertificateFromKeystore_def reload_or_fail_Value keystore_Reload_def readPEM_def sample_worlds Let_def)

theorem buildCertificate_source_witness:
  "\<exists>c. buildCertificate sample_build sample_world (init_flags sample_build default_flags) ''server.p12'' ''pw'' = Value (Some c) \<and>
    GetCertificate (reloads Reload [broken_world] c) \<noteq> Inr None"
proof -
  obtain c where c: "buildCertificate sample_build sample_world (init_flags sample_build default_flags) ''server.p12'' ''pw'' = Value (Some c)"
    using sample_keystore [of "''pw''"] by (auto simp: buildCertificate_def sample_sources)
  then have "GetCertificate (reloads Reload [broken_world] c) \<noteq> Inr None"
    using buildCertificate_source [OF c] by (simp del: GetCertificate_cached reloads.simps)
  with c show ?thesis by blast
qed

text \<open>A record of flags whose optional pointers are nil exactly for the features that the build lacks.\<close>

definition flags_wf :: "build \<Rightarrow> flags \<Rightarrow> bool" where
  "flags_wf b f \<longleftrightarrow>
     (pkcs11Module f \<noteq> None \<longleftrightarrow> with_pkcs11 b) \<and> (pkcs11TokenLabel f \<noteq> None \<longleftrightarrow> with_pkcs11 b) \<and>
     (pkcs11PIN f \<noteq> None \<longleftrightarrow> with_pkcs11 b) \<and> (keychainIdentity f \<noteq> None \<longleftrightarrow> with_keychain b)"

lemma constructors_not_nil:
  "CertificateFromKeystore w path pass \<noteq> Panic nil_dereference"
  "CertificateFromPKCS11Module b w path module label pin \<noteq> Panic nil_dereference"
  "CertificateFromKeychainIdentity b w cn \<noteq> Panic nil_dereference"
proof -
  have search: "certstore_search cn identities \<noteq> Panic nil_dereference" for identities
    by (induction cn identities rule: certstore_search.induct)
      (auto simp: nil_dereference_def split: list.splits)
  show "CertificateFromKeystore w path pass \<noteq> Panic nil_dereference"
    by (auto simp: CertificateFromKeystore_def keystore_Reload_def reload_or_fail_def nil_dereference_def Let_def
        split: sum.splits list.splits)
  show "CertificateFromPKCS11Module b w path module label pin \<noteq> Panic nil_dereference"
    by (auto simp: CertificateFromPKCS11Module_def pkcs11_Reload_def reload_or_fail_def nil_dereference_def Let_def
        split: sum.splits list.splits)
  show "CertificateFromKeychainIdentity b w cn \<noteq> Panic nil_dereference"
    using search by (auto simp: CertificateFromKeychainIdentity_def certstore_Reload_def reload_or_fail_def
        split: option.splits sum.splits outcome.splits)
qed

text \<open>
  C25. The flags that exist in some builds only are well-formed after \<open>init\<close>: a pointer is nil
  exactly when the build lacks the feature. No pointer that is nil is followed when the
  certificate is built, for any combination of flags and build.
\<close>

theorem optional_flags_never_nil:
  "flags_wf b (init_flags b f) \<and> buildCertificate b w (init_flags b f) path pass \<noteq> Panic nil_dereference"
proof
  show wf: "flags_wf b (init_flags b f)"
    by (simp add: flags_wf_def init_flags_def registered_def SupportsPKCS11_def SupportsKeychain_def Let_def)
  have *: "map_outcome Some r \<noteq> Panic nil_dereference" if "r \<noteq> Panic nil_dereference" for r :: "Certificate outcome"
    using that by (cases r) simp_all
  have "buildCertificateFromPKCS11 b w g path \<noteq> Panic nil_dereference" if "flags_wf b g" "hasPKCS11 g" for g
    using that constructors_not_nil(2)
    by (auto simp: buildCertificateFromPKCS11_def flags_wf_def hasPKCS11_def split: option.splits)
  moreover have "buildCertificateFromCertstore b w g \<noteq> Panic nil_dereference" if "hasKeychainIdentity g" for g
    using that constructors_not_nil(3)
    by (auto simp: buildCertificateFromCertstore_def hasKeychainIdentity_def split: option.splits)
  ultimately show "buildCertificate b w (init_flags b f) path pass \<noteq> Panic nil_dereference"
    using wf constructors_not_nil(1) by (simp add: buildCertificate_def *)
qed

end
