(* ===== verification/Validation.thy ===== *)
theory Validation
  imports Tls_Config
begin

text \<open>
  The checks of \<open>src/main.go\<close> on flags and addresses: \<open>validateFlags\<close>,
  \<open>serverValidateFlags\<close>, \<open>clientValidateFlags\<close>, \<open>validateUnixOrLocalhost\<close> and
  \<open>parseUnixOrTCPAddress\<close>, with \<open>net.SplitHostPort\<close> of the standard library. A function that
  returns an \<open>error\<close> only is an \<open>error option\<close>, with \<open>None\<close> for nil.
\<close>


section \<open>net.SplitHostPort\<close>

fun byteIndex :: "string \<Rightarrow> char \<Rightarrow> nat option" where
  "byteIndex [] c = None"
| "byteIndex (x # s) c = (if x = c then Some 0 else map_option Suc (byteIndex s c))"

fun lastIndex :: "string \<Rightarrow> char \<Rightarrow> nat option" where
  "lastIndex [] c = None"
| "lastIndex (x # s) c =
     (case lastIndex s c of
        Some i \<Rightarrow> Some (Suc i)
      | None \<Rightarrow> if x = c then Some 0 else None)"

definition addrErr :: "string \<Rightarrow> string \<Rightarrow> (string \<times> string) result" where
  "addrErr addr why = Inl (''address '' @ addr @ '': '' @ why)"

definition split_brackets :: "string \<Rightarrow> string \<Rightarrow> string \<Rightarrow> string \<Rightarrow> string \<Rightarrow> (string \<times> string) result" where
  "split_brackets hostport host port from_j from_k =
     (if byteIndex from_j (CHR ''['') \<noteq> None then addrErr hostport (''unexpected '' @ quoted ''['' @ '' in address'')
      else if byteIndex from_k (CHR '']'') \<noteq> None then addrErr hostport (''unexpected '' @ quoted '']'' @ '' in address'')
      else Inr (host, port))"

definition SplitHostPort :: "string \<Rightarrow> (string \<times> string) result" where
  "SplitHostPort hostport =
     (case lastIndex hostport (CHR '':'') of
        None \<Rightarrow> addrErr hostport ''missing port in address''
      | Some i \<Rightarrow>
          if hd hostport = CHR ''['' then
            (case byteIndex hostport (CHR '']'') of
               None \<Rightarrow> addrErr hostport (''missing '' @ quoted '']'' @ '' in address'')
             | Some e \<Rightarrow>
                 if e + 1 = length hostport then addrErr hostport ''missing port in address''
                 else if e + 1 = i then
                   split_brackets hostport (take (e - 1) (drop 1 hostport)) (drop (i + 1) hostport)
                     (drop 1 hostport) (drop (e + 1) hostport)
                 else if hostport ! (e + 1) = CHR '':'' then addrErr hostport ''too many colons in address''
                 else addrErr hostport ''missing port in address'')
          else if byteIndex (take i hostport) (CHR '':'') \<noteq> None
          then addrErr hostport ''too many colons in address''
          else split_brackets hostport (take i hostport) (drop (i + 1) hostport) hostport hostport)"

lemma byteIndex_None [simp]: "byteIndex s c = None \<longleftrightarrow> c \<notin> set s"
  by (induction s) auto

lemma byteIndex_append: "c \<notin> set u \<Longrightarrow> byteIndex (u @ c # v) c = Some (length u)"
  by (induction u) auto

lemma byteIndex_Some: "byteIndex s c = Some i \<longleftrightarrow> (\<exists>u v. s = u @ c # v \<and> c \<notin> set u \<and> i = length u)"
proof
  assume i: "byteIndex s c = Some i"
  then have "c \<in> set s" using byteIndex_None [of s c] by auto
  then obtain u v where "s = u @ c # v" "c \<notin> set u"
    by (blast dest: split_list_first)
  with i show "\<exists>u v. s = u @ c # v \<and> c \<notin> set u \<and> i = length u"
    by (auto simp: byteIndex_append)
qed (auto simp: byteIndex_append)

lemma lastIndex_None [simp]: "lastIndex s c = None \<longleftrightarrow> c \<notin> set s"
  by (induction s) (auto split: option.splits)

lemma lastIndex_append: "c \<notin> set v \<Longrightarrow> lastIndex (u @ c # v) c = Some (length u)"
  by (induction u) (auto split: option.splits)

lemma lastIndex_Some: "lastIndex s c = Some i \<longleftrightarrow> (\<exists>u v. s = u @ c # v \<and> c \<notin> set v \<and> i = length u)"
proof
  assume i: "lastIndex s c = Some i"
  then have "c \<in> set s" using lastIndex_None [of s c] by auto
  then obtain u v where "s = u @ c # v" "c \<notin> set v"
    by (blast dest: split_list_last)
  with i show "\<exists>u v. s = u @ c # v \<and> c \<notin> set v \<and> i = length u"
    by (auto simp: lastIndex_append)
qed (auto simp: lastIndex_append)

text \<open>
  The meaning of \<open>SplitHostPort\<close>: a host without colons, or a host in brackets, followed by a
  colon and a port; no other brackets and no colon in the port.
\<close>

definition host_port :: "string \<Rightarrow> string \<Rightarrow> string \<Rightarrow> bool" where
  "host_port s host port \<longleftrightarrow>
     CHR ''['' \<notin> set (host @ port) \<and> CHR '']'' \<notin> set (host @ port) \<and> CHR '':'' \<notin> set port \<and>
     (s = host @ '':'' @ port \<and> CHR '':'' \<notin> set host \<or> s = ''['' @ host @ '']:'' @ port)"

lemma split_brackets_Inr:
  "split_brackets s h p from_j from_k = Inr (host, port) \<longleftrightarrow>
   CHR ''['' \<notin> set from_j \<and> CHR '']'' \<notin> set from_k \<and> host = h \<and> port = p"
  by (auto simp: split_brackets_def addrErr_def)

lemma SplitHostPort_bracket:
  assumes "s = CHR ''['' # t"
  shows "SplitHostPort s = Inr (host, port) \<longleftrightarrow> host_port s host port"
proof
  assume l: "SplitHostPort s = Inr (host, port)"
  then obtain i where i: "lastIndex s (CHR '':'') = Some i"
    by (auto simp: SplitHostPort_def addrErr_def split: option.splits)
  from l i assms obtain e where e: "byteIndex s (CHR '']'') = Some e"
    by (auto simp: SplitHostPort_def addrErr_def split: option.splits)
  have ei: "e + 1 = i" and sb: "split_brackets s (take (e - 1) (drop 1 s)) (drop (i + 1) s)
      (drop 1 s) (drop (e + 1) s) = Inr (host, port)"
    using l i e assms by (auto simp: SplitHostPort_def addrErr_def split: if_splits)
  obtain u v where u: "s = u @ CHR '']'' # v" "CHR '']'' \<notin> set u" "e = length u"
    using e by (auto simp: byteIndex_Some)
  obtain u' p where p: "s = u' @ CHR '':'' # p" "CHR '':'' \<notin> set p" "i = length u'"
    using i by (auto simp: lastIndex_Some)
  have v: "v = CHR '':'' # p"
    using u p ei by (metis append.assoc append_Cons append_Nil append_eq_append_conv length_append_singleton Suc_eq_plus1)
  obtain h where h: "u = CHR ''['' # h"
    using u(1) assms by (cases u) auto
  from sb u v h p(2) ei show "host_port s host port"
    by (auto simp: split_brackets_Inr host_port_def)
next
  assume r: "host_port s host port"
  then have s: "s = ''['' @ host @ '']:'' @ port"
    using assms by (auto simp: host_port_def Cons_eq_append_conv)
  then have "byteIndex s (CHR '']'') = Some (Suc (length host))"
    using r unfolding byteIndex_Some
    by (intro exI [of _ "CHR ''['' # host"] exI [of _ "CHR '':'' # port"]) (auto simp: host_port_def)
  moreover have "lastIndex s (CHR '':'') = Some (Suc (Suc (length host)))"
    using r s unfolding lastIndex_Some
    by (intro exI [of _ "''['' @ host @ '']''"] exI [of _ port]) (auto simp: host_port_def)
  ultimately show "SplitHostPort s = Inr (host, port)"
    using r s by (auto simp: SplitHostPort_def split_brackets_Inr host_port_def)
qed

lemma SplitHostPort_plain:
  assumes "s = [] \<or> hd s \<noteq> CHR ''[''"
  shows "SplitHostPort s = Inr (host, port) \<longleftrightarrow> host_port s host port"
proof
  assume l: "SplitHostPort s = Inr (host, port)"
  then obtain i where i: "lastIndex s (CHR '':'') = Some i"
    by (auto simp: SplitHostPort_def addrErr_def split: option.splits)
  then obtain u p where p: "s = u @ CHR '':'' # p" "CHR '':'' \<notin> set p" "i = length u"
    by (auto simp: lastIndex_Some)
  with l i assms show "host_port s host port"
    by (auto simp: SplitHostPort_def addrErr_def split_brackets_Inr host_port_def split: if_splits)
next
  assume r: "host_port s host port"
  then have s: "s = host @ '':'' @ port"
    using assms by (auto simp: host_port_def)
  with r have "lastIndex s (CHR '':'') = Some (length host)"
    by (simp add: lastIndex_append host_port_def)
  moreover have "byteIndex host (CHR '':'') = None" "hd s \<noteq> CHR ''[''"
    using r s assms by (auto simp: host_port_def)
  ultimately show "SplitHostPort s = Inr (host, port)"
    using r s by (auto simp: SplitHostPort_def split_brackets_Inr host_port_def)
qed

lemma SplitHostPort_iff: "SplitHostPort s = Inr (host, port) \<longleftrightarrow> host_port s host port"
  by (cases "s = [] \<or> hd s \<noteq> CHR ''[''")
    (auto simp: SplitHostPort_plain neq_Nil_conv SplitHostPort_bracket)


section \<open>Addresses\<close>

definition parseUnixOrTCPAddress :: "world \<Rightarrow> string \<Rightarrow> (string \<times> string \<times> string) result" where
  "parseUnixOrTCPAddress w input =
     (if HasPrefix input ''unix:'' then Inr (''unix'', drop 5 input, [])
      else case SplitHostPort input of
        Inl err \<Rightarrow> Inl err
      | Inr (host, _) \<Rightarrow>
          (case ResolveTCPAddr w input of
             Some err \<Rightarrow> Inl err
           | None \<Rightarrow> Inr (''tcp'', input, host)))"

definition validateUnixOrLocalhost :: "string \<Rightarrow> bool" where
  "validateUnixOrLocalhost addr =
     (if HasPrefix addr ''unix:'' then True
      else if HasPrefix addr ''127.0.0.1:'' then True
      else if HasPrefix addr ''[::1]:'' then True
      else if HasPrefix addr ''localhost:'' then True
      else False)"


section \<open>Flags\<close>

text \<open>\<open>panicOnError\<close> turns an error into a panic.\<close>

definition panicOnError :: "error option \<Rightarrow> unit outcome" where
  "panicOnError err = (case err of None \<Rightarrow> Value () | Some e \<Rightarrow> Panic e)"

definition validateFlags :: "flags \<Rightarrow> error option" where
  "validateFlags f =
     (if enableProf f \<and> statusAddress f = [] then Some ''--enable-pprof requires --status to be set''
      else if metricsURL f \<noteq> [] \<and> \<not> HasPrefix (metricsURL f) ''http://'' \<and> \<not> HasPrefix (metricsURL f) ''https://''
      then Some ''--metrics-url should start with http:// or https://''
      else if timeoutDuration f = 0 then Some ''--connect-timeout duration must not be zero''
      else None)"

fun validate_suites :: "string list \<Rightarrow> error option" where
  "validate_suites [] = None"
| "validate_suites (suite # rest) =
     (case cipherSuites (TrimSpace suite) of
        None \<Rightarrow> Some (''invalid cipher suite option: '' @ suite)
      | Some _ \<Rightarrow> validate_suites rest)"

definition hasAccessFlags :: "flags \<Rightarrow> bool" where
  "hasAccessFlags f \<longleftrightarrow>
     length (serverAllowedCNs f) > 0 \<or> length (serverAllowedOUs f) > 0 \<or>
     length (serverAllowedDNSs f) > 0 \<or> length (serverAllowedIPs f) > 0 \<or>
     length (serverAllowedURIs f) > 0"

definition serverValidateFlags :: "flags \<Rightarrow> error option" where
  "serverValidateFlags f =
     (if keystorePath f = [] \<and> \<not> hasKeychainIdentity f
      then Some ''at least one of --keystore or --keychain-identity (if supported) flags is required''
      else if keystorePath f \<noteq> [] \<and> hasKeychainIdentity f
      then Some ''--keystore and --keychain-identity flags are mutually exclusive''
      else if \<not> serverDisableAuth f \<and> \<not> serverAllowAll f \<and> \<not> hasAccessFlags f
      then Some ''at least one access control flag (--allow-{all,cn,ou,dns-san,ip-san,uri-san} or --disable-authentication) is required''
      else if \<not> serverDisableAuth f \<and> serverAllowAll f \<and> hasAccessFlags f
      then Some ''--allow-all is mutually exclusive with other access control flags''
      else if serverDisableAuth f \<and> (serverAllowAll f \<or> hasAccessFlags f)
      then Some ''--disable-authentication is mutually exclusive with other access control flags''
      else if \<not> serverUnsafeTarget f \<and> \<not> validateUnixOrLocalhost (serverForwardAddress f)
      then Some ''--target must be unix:PATH, localhost:PORT, 127.0.0.1:PORT or [::1]:PORT (unless --unsafe-target is set)''
      else validate_suites (Split (enabledCipherSuites f) '',''))"

definition clientValidateFlags :: "flags \<Rightarrow> error option" where
  "clientValidateFlags f =
     (if keystorePath f = [] \<and> \<not> hasKeychainIdentity f \<and> \<not> clientDisableAuth f
      then Some ''at least one of --keystore, --keychain-identity (if supported), or --disable-authentication flags is required''
      else if keystorePath f \<noteq> [] \<and> hasKeychainIdentity f \<or>
              keystorePath f \<noteq> [] \<and> clientDisableAuth f \<or>
              hasKeychainIdentity f \<and> clientDisableAuth f
      then Some ''--keystore, --keychain-identity, and --disable-authentication flags are mutually exclusive''
      else if \<not> clientUnsafeListen f \<and> \<not> validateUnixOrLocalhost (clientListenAddress f)
      then Some ''--listen must be unix:PATH, localhost:PORT, 127.0.0.1:PORT or [::1]:PORT (unless --unsafe-listen is set)''
      else case clientConnectProxy f of
        Some url \<Rightarrow>
          if Scheme url \<noteq> ''http'' \<and> Scheme url \<noteq> ''https''
          then Some (''invalid CONNECT proxy '' @ connect_String url @ '', must have HTTP or HTTPS connection scheme'')
          else validate_suites (Split (enabledCipherSuites f) '','')
      | None \<Rightarrow> validate_suites (Split (enabledCipherSuites f) '',''))"


section \<open>Lemmas\<close>

lemma validate_suites_None:
  "validate_suites names = None \<longleftrightarrow> list_all (\<lambda>n. TrimSpace n \<in> dom cipherSuites) names"
  by (induction names) (auto split: option.splits)

lemma validate_suites_buildConfig:
  "validate_suites names = None \<longleftrightarrow> \<not> is_error (buildConfig_suites names acc)"
  by (simp add: validate_suites_None buildConfig_suites_is_error)

lemma buildConfig_is_error:
  "validate_suites (Split names '','') = None \<Longrightarrow>
   is_error (buildConfig w names path) \<longleftrightarrow> is_error (caBundle w path)"
  using validate_suites_buildConfig [of "Split names '',''" "[]"]
  by (auto simp: buildConfig_def is_error_def split: sum.splits)

lemma host_port_prefix:
  assumes "host_port (p @ '':'' @ rest) host port" and "CHR '':'' \<notin> set p" and "p \<noteq> []" and "hd p \<noteq> CHR ''[''"
  shows "host = p"
proof -
  from assms have *: "p @ CHR '':'' # rest = host @ CHR '':'' # port" "CHR '':'' \<notin> set host"
    by (cases p; auto simp: host_port_def)+
  then show ?thesis
    using first_separator_unique assms(2) by metis
qed

lemma host_port_loopback6: "host_port (''[::1]:'' @ rest) host port \<Longrightarrow> host = ''::1''"
proof -
  assume h: "host_port (''[::1]:'' @ rest) host port"
  then have "''::1'' @ CHR '']'' # '':'' @ rest = host @ CHR '']'' # '':'' @ port" "CHR '']'' \<notin> set host"
    by (cases host; auto simp: host_port_def)+
  then have "''::1'' = host"
    by (intro first_separator_unique [of "''::1''" "CHR '']''" "'':'' @ rest" host "'':'' @ port"]) simp_all
  then show ?thesis by simp
qed

definition loopback_hosts :: "string set" where
  "loopback_hosts = {''localhost'', ''127.0.0.1'', ''::1''}"

lemma validated_host:
  assumes "validateUnixOrLocalhost addr" "\<not> HasPrefix addr ''unix:''" "host_port addr host port"
  shows "host \<in> loopback_hosts"
proof -
  consider rest where "addr = ''127.0.0.1'' @ '':'' @ rest" | rest where "addr = ''localhost'' @ '':'' @ rest"
    | rest where "addr = ''[::1]:'' @ rest"
    using assms(1,2) by (auto simp: validateUnixOrLocalhost_def HasPrefix_iff split: if_splits)
  then show ?thesis
  proof cases
    case (1 rest)
    then have "host = ''127.0.0.1''"
      using assms(3) by (intro host_port_prefix [of _ rest]) simp_all
    then show ?thesis by (simp add: loopback_hosts_def)
  next
    case (2 rest)
    then have "host = ''localhost''"
      using assms(3) by (intro host_port_prefix [of _ rest]) simp_all
    then show ?thesis by (simp add: loopback_hosts_def)
  next
    case (3 rest)
    then show ?thesis
      using assms(3) host_port_loopback6 by (simp add: loopback_hosts_def)
  qed
qed


section \<open>Properties\<close>

text \<open>
  Splitting a TCP address: the result is the pair of host and port exactly for the texts
  \<open>host:port\<close> with no colon in the host and \<open>[host]:port\<close>, where neither part has a bracket
  and the port has no colon. Every other text is an error.
\<close>

theorem SplitHostPort_spec: "SplitHostPort s = Inr (host, port) \<longleftrightarrow> host_port s host port"
  by (rule SplitHostPort_iff)

text \<open>
  The check that keeps traffic local is sound: an address that passes
  \<open>validateUnixOrLocalhost\<close> and then parses is a unix socket, or a TCP address, passed on
  unchanged, whose host part is localhost, 127.0.0.1 or ::1. The prefix test cannot be evaded by
  anything after the prefix.
\<close>

theorem validated_address_is_local:
  assumes "validateUnixOrLocalhost addr"
    and "parseUnixOrTCPAddress w addr = Inr (network, address, host)"
  shows "network = ''unix'' \<and> addr = ''unix:'' @ address \<or>
    network = ''tcp'' \<and> address = addr \<and> host \<in> loopback_hosts"
proof (cases "HasPrefix addr ''unix:''")
  case True
  with assms(2) show ?thesis
    by (auto simp: parseUnixOrTCPAddress_def HasPrefix_iff)
next
  case False
  with assms(2) obtain port where p: "host_port addr host port" and "network = ''tcp''" "address = addr"
    by (auto simp: parseUnixOrTCPAddress_def split: sum.splits option.splits simp flip: SplitHostPort_iff)
  with validated_host [OF assms(1) False p] show ?thesis by simp
qed

lemma sample_parse: "parseUnixOrTCPAddress sample_world ''[::1]:8080'' = Inr (''tcp'', ''[::1]:8080'', ''::1'')"
proof -
  have "SplitHostPort ''[::1]:8080'' = Inr (''::1'', ''8080'')"
    unfolding SplitHostPort_iff by (simp add: host_port_def)
  then show ?thesis
    by (simp add: parseUnixOrTCPAddress_def HasPrefix_def sample_worlds)
qed

theorem validated_address_is_local_witness:
  "''::1'' \<in> loopback_hosts \<and> parseUnixOrTCPAddress sample_world ''[::1]:8080'' = Inr (''tcp'', ''[::1]:8080'', ''::1'')"
  using validated_address_is_local [OF _ sample_parse] sample_parse
  by (simp add: validateUnixOrLocalhost_def HasPrefix_def)

text \<open>
  The flags that server mode accepts: one source of the certificate (keystore or keychain),
  exactly one of the three authorization modes (disabled, allow-all, access control list), a
  local target unless \<open>--unsafe-target\<close> is given, and known cipher suites only.
\<close>

theorem serverValidateFlags_accepts_iff:
  "serverValidateFlags f = None \<longleftrightarrow>
     (keystorePath f \<noteq> []) \<noteq> hasKeychainIdentity f \<and>
     (serverDisableAuth f \<and> \<not> serverAllowAll f \<and> \<not> hasAccessFlags f \<or>
      \<not> serverDisableAuth f \<and> serverAllowAll f \<and> \<not> hasAccessFlags f \<or>
      \<not> serverDisableAuth f \<and> \<not> serverAllowAll f \<and> hasAccessFlags f) \<and>
     (serverUnsafeTarget f \<or> validateUnixOrLocalhost (serverForwardAddress f)) \<and>
     list_all (\<lambda>n. TrimSpace n \<in> dom cipherSuites) (split_on (CHR '','') (enabledCipherSuites f))"
  by (auto simp: serverValidateFlags_def validate_suites_None Split_char)

text \<open>
  The flags that client mode accepts: exactly one of keystore, keychain identity and
  \<open>--disable-authentication\<close>, a local listening address unless \<open>--unsafe-listen\<close> is given, an
  HTTP or HTTPS proxy if any, and known cipher suites only.
\<close>

theorem clientValidateFlags_accepts_iff:
  "clientValidateFlags f = None \<longleftrightarrow>
     (keystorePath f \<noteq> [] \<and> \<not> hasKeychainIdentity f \<and> \<not> clientDisableAuth f \<or>
      keystorePath f = [] \<and> hasKeychainIdentity f \<and> \<not> clientDisableAuth f \<or>
      keystorePath f = [] \<and> \<not> hasKeychainIdentity f \<and> clientDisableAuth f) \<and>
     (clientUnsafeListen f \<or> validateUnixOrLocalhost (clientListenAddress f)) \<and>
     (case clientConnectProxy f of None \<Rightarrow> True | Some url \<Rightarrow> Scheme url \<in> {''http'', ''https''}) \<and>
     list_all (\<lambda>n. TrimSpace n \<in> dom cipherSuites) (split_on (CHR '','') (enabledCipherSuites f))"
  by (auto simp: clientValidateFlags_def validate_suites_None Split_char split: option.splits)

text \<open>
  C27. After validation, in either mode, building a TLS configuration from the validated cipher
  suites can only fail because of the CA bundle: the two loops over the names agree.
\<close>

theorem validated_suites_build:
  assumes "serverValidateFlags f = None \<or> clientValidateFlags f = None"
  shows "is_error (buildConfig w (enabledCipherSuites f) path) \<longleftrightarrow> is_error (caBundle w path)"
proof -
  have "validate_suites (Split (enabledCipherSuites f) '','') = None"
    using assms by (auto simp: serverValidateFlags_def clientValidateFlags_def split: if_splits option.splits)
  then show ?thesis by (rule buildConfig_is_error)
qed

definition sample_server :: flags where
  "sample_server = default_flags\<lparr>serverListenAddress := ''0.0.0.0:443'', serverForwardAddress := ''localhost:8080'',
     keystorePath := ''server.p12'', caBundlePath := ''ca.pem'', serverAllowedCNs := [''client'']\<rparr>"

lemma sample_server_valid: "serverValidateFlags sample_server = None"
  by (simp add: serverValidateFlags_def sample_server_def default_flags_def hasKeychainIdentity_def
      hasAccessFlags_def validateUnixOrLocalhost_def HasPrefix_def Split_char TrimSpace_groups cipherSuites_def)

theorem validated_suites_build_witness:
  "\<not> is_error (buildConfig sample_world (enabledCipherSuites sample_server) ''ca.pem'')"
  using validated_suites_build [OF disjI1 [OF sample_server_valid], of sample_world "''ca.pem''"]
  by (simp add: caBundle_def sample_worlds)

end
