(* ===== verification/Status.thy ===== *)
theory Status
  imports Go_Json Validation
begin

text \<open>
  \<open>src/status.go\<close>: the status flags and the handler of \<open>/_status\<close>.

  The mutex makes the three places that touch the flags atomic, so \<open>Listening\<close> and
  \<open>Reloading\<close> are functions on the state and \<open>ServeHTTP\<close> reads one state. Its effects are
  the calls it makes, in order. What it asks of the host (time, host name) and of the linker
  (revision, compiler) is the record \<open>host\<close>; the time is given by its JSON form, which
  \<open>time.Time\<close> refuses to produce outside the years 0 to 9999.
\<close>


section \<open>State\<close>

record statusHandler =
  listening :: bool
  reloading :: bool

record statusResponse =
  Ok :: bool
  resp_Status :: string
  BackendOk :: bool
  BackendStatus :: string
  BackendError :: string
  Time :: "string result"
  Hostname :: string
  Message :: string
  Revision :: string
  Compiler :: string

record host =
  time_Now :: "string result"
  os_Hostname :: "string result"
  version :: string
  runtime_Version :: string

definition newStatusHandler :: statusHandler where
  "newStatusHandler = \<lparr>listening = False, reloading = False\<rparr>"

definition Listening :: "statusHandler \<Rightarrow> statusHandler" where
  "Listening s = s\<lparr>listening := True, reloading := False\<rparr>"

definition Reloading :: "statusHandler \<Rightarrow> statusHandler" where
  "Reloading s = s\<lparr>reloading := True\<rparr>"


section \<open>The handler\<close>

text \<open>\<open>json.Marshal\<close> of the response, with the field tags; two fields are omitted when empty.\<close>

definition omitempty :: "string \<Rightarrow> string \<Rightarrow> (string \<times> string) list" where
  "omitempty k v = (if v = [] then [] else [(k, json_string v)])"

definition statusResponse_Marshal :: "statusResponse \<Rightarrow> string result" where
  "statusResponse_Marshal resp =
     (case Time resp of
        Inl err \<Rightarrow> Inl err
      | Inr t \<Rightarrow> Inr (json_object
          ([(''ok'', json_bool (Ok resp)), (''status'', json_string (resp_Status resp)),
            (''backend_ok'', json_bool (BackendOk resp)),
            (''backend_status'', json_string (BackendStatus resp))] @
           omitempty ''backend_error'' (BackendError resp) @
           [(''time'', t)] @
           omitempty ''hostname'' (Hostname resp) @
           [(''message'', json_string (Message resp)), (''revision'', json_string (Revision resp)),
            (''compiler'', json_string (Compiler resp))])))"

datatype status_effect = DialBackend | CloseProbe | WriteHeader nat | Write string

definition StatusServiceUnavailable :: nat where
  "StatusServiceUnavailable = 503"

text \<open>
  The response of a handler whose backend dial ends with \<open>err\<close>, up to \<open>json.Marshal\<close>.
\<close>

definition status_response :: "host \<Rightarrow> statusHandler \<Rightarrow> error option \<Rightarrow> statusResponse" where
  "status_response h s err =
     (let backendOk = (err = None);
          ok = (listening s \<and> backendOk) in
      \<lparr>Ok = ok,
       resp_Status = (if ok \<and> backendOk then ''ok'' else ''critical''),
       BackendOk = backendOk,
       BackendStatus = (if backendOk then ''ok'' else ''critical''),
       BackendError = (case err of None \<Rightarrow> [] | Some e \<Rightarrow> e),
       Time = time_Now h,
       Hostname = (case os_Hostname h of Inl _ \<Rightarrow> [] | Inr name \<Rightarrow> name),
       Message = (if \<not> listening s then ''initializing''
                  else if reloading s then ''reloading'' else ''listening''),
       Revision = version h,
       Compiler = runtime_Version h\<rparr>)"

definition ServeHTTP :: "host \<Rightarrow> statusHandler \<Rightarrow> error option \<Rightarrow> status_effect list outcome" where
  "ServeHTTP h s err =
     (let resp = status_response h s err;
          probe = [DialBackend] @ (if BackendOk resp then [CloseProbe] else []) in
      case statusResponse_Marshal resp of
        Inl e \<Rightarrow>
          (case panicOnError (Some e) of
             Panic p \<Rightarrow> Panic p | Failure f \<Rightarrow> Failure f | Value _ \<Rightarrow> Value probe)
      | Inr out \<Rightarrow>
          (case panicOnError None of
             Panic p \<Rightarrow> Panic p | Failure f \<Rightarrow> Failure f
           | Value _ \<Rightarrow>
               Value (probe @ (if \<not> Ok resp then [WriteHeader StatusServiceUnavailable] else []) @ [Write out])))"

text \<open>The HTTP status that the server sends: 200 unless the handler wrote another header first.\<close>

fun response_code :: "status_effect list \<Rightarrow> nat" where
  "response_code [] = 200"
| "response_code (WriteHeader code # es) = code"
| "response_code (Write out # es) = 200"
| "response_code (_ # es) = response_code es"


section \<open>Properties\<close>

text \<open>
  C37. The status endpoint answers 200 exactly when the proxy is listening and the backend can be
  reached, and 503 otherwise; it dials the backend once, closes the connection it opened, and
  writes exactly one body. It panics only if the clock cannot be encoded.
\<close>

theorem ServeHTTP_code:
  "(case ServeHTTP h s err of
      Panic p \<Rightarrow> time_Now h = Inl p
    | Failure _ \<Rightarrow> False
    | Value effects \<Rightarrow>
        response_code effects = (if listening s \<and> err = None then 200 else 503) \<and>
        count_list effects DialBackend = 1 \<and>
        count_list effects CloseProbe = (if err = None then 1 else 0) \<and>
        (\<exists>out. statusResponse_Marshal (status_response h s err) = Inr out \<and> last effects = Write out))"
  by (cases "time_Now h")
    (simp_all add: ServeHTTP_def status_response_def statusResponse_Marshal_def panicOnError_def
      StatusServiceUnavailable_def Let_def)

text \<open>Reading a response back: \<open>json.Unmarshal\<close> into the same type, a member that is missing is empty.\<close>

definition string_member :: "string \<Rightarrow> (string \<times> json_value) list \<Rightarrow> string" where
  "string_member k ms = (case map_of ms k of Some (JString s) \<Rightarrow> s | _ \<Rightarrow> [])"

definition bool_member :: "string \<Rightarrow> (string \<times> json_value) list \<Rightarrow> bool" where
  "bool_member k ms = (map_of ms k = Some (JBool True))"

definition statusResponse_Unmarshal :: "string \<Rightarrow> statusResponse option" where
  "statusResponse_Unmarshal out =
     map_option (\<lambda>ms.
       \<lparr>Ok = bool_member ''ok'' ms, resp_Status = string_member ''status'' ms,
        BackendOk = bool_member ''backend_ok'' ms, BackendStatus = string_member ''backend_status'' ms,
        BackendError = string_member ''backend_error'' ms,
        Time = Inr (json_string (string_member ''time'' ms)),
        Hostname = string_member ''hostname'' ms, Message = string_member ''message'' ms,
        Revision = string_member ''revision'' ms, Compiler = string_member ''compiler'' ms\<rparr>)
     (read_object out)"

definition status_members :: "string \<Rightarrow> statusResponse \<Rightarrow> (string \<times> json_value) list" where
  "status_members t resp =
     [(''ok'', JBool (Ok resp)), (''status'', JString (resp_Status resp)), (''backend_ok'', JBool (BackendOk resp)),
      (''backend_status'', JString (BackendStatus resp))] @
     (if BackendError resp = [] then [] else [(''backend_error'', JString (BackendError resp))]) @
     [(''time'', JString t)] @
     (if Hostname resp = [] then [] else [(''hostname'', JString (Hostname resp))]) @
     [(''message'', JString (Message resp)), (''revision'', JString (Revision resp)), (''compiler'', JString (Compiler resp))]"

lemma statusResponse_Marshal_members:
  "Time resp = Inr (json_string t) \<Longrightarrow>
   statusResponse_Marshal resp = Inr (json_object (map (apsnd json_encode) (status_members t resp)))"
  by (simp add: statusResponse_Marshal_def status_members_def omitempty_def)

definition response_valid :: "statusResponse \<Rightarrow> bool" where
  "response_valid resp \<longleftrightarrow> list_all utf8_valid [resp_Status resp, BackendStatus resp, BackendError resp, Hostname resp,
     Message resp, Revision resp, Compiler resp]"


definition sample_host :: host where
  "sample_host = \<lparr>time_Now = Inr (json_string ''2020-01-01T00:00:00Z''), os_Hostname = Inr ''host'', version = ''master'',
     runtime_Version = ''go1.12''\<rparr>"


text \<open>
  The calls of \<open>Listening\<close> (true) and \<open>Reloading\<close> (false), as a sequence.
\<close>

fun status_calls :: "bool list \<Rightarrow> statusHandler \<Rightarrow> statusHandler" where
  "status_calls [] s = s"
| "status_calls (b # bs) s = status_calls bs (if b then Listening s else Reloading s)"

lemma status_calls_append: "status_calls (bs @ cs) s = status_calls cs (status_calls bs s)"
  by (induction bs arbitrary: s) simp_all

text \<open>
  The message of the endpoint is the history of the calls: initializing before the first call
  of \<open>Listening\<close>, then listening or reloading after the last call. Once the proxy is listening no
  reload makes it unhealthy.
\<close>

theorem status_message_history:
  "Message (status_response h (status_calls calls newStatusHandler) err) =
     (if True \<notin> set calls then ''initializing''
      else if last calls then ''listening'' else ''reloading'')"
proof -
  have "listening (status_calls calls newStatusHandler) \<longleftrightarrow> True \<in> set calls"
    and "reloading (status_calls calls newStatusHandler) \<longleftrightarrow> calls \<noteq> [] \<and> \<not> last calls"
    by (induction calls rule: rev_induct)
      (auto simp: status_calls_append newStatusHandler_def Listening_def Reloading_def)
  then show ?thesis
    by (cases "calls = []") (simp_all add: status_response_def Let_def)
qed

end
