(* ===== verification/Transitions.thy ===== *)
theory Transitions
  imports Prelude
begin

text \<open>
  Step relations and the states they reach, as the components with goroutines use them: what an
  invariant is, and how a measure gives that a run can be completed.
\<close>

locale transition_system =
  fixes step :: "'s \<Rightarrow> 's \<Rightarrow> bool"
    and reach :: "'s \<Rightarrow> 's \<Rightarrow> bool"
  assumes reach_iff: "reach s s' \<longleftrightarrow> step\<^sup>*\<^sup>* s s'"
begin

lemma reach_refl: "reach s s"
  by (simp add: reach_iff)

lemma reach_step: "step s' s'' \<Longrightarrow> reach s s' \<Longrightarrow> reach s s''"
  unfolding reach_iff by (rule rtranclp.rtrancl_into_rtrancl)

lemma reach_trans: "reach s s' \<Longrightarrow> reach s' s'' \<Longrightarrow> reach s s''"
  unfolding reach_iff by (rule rtranclp_trans)

lemma invariant:
  assumes "reach s s'" and "I s" and "\<And>x y. step x y \<Longrightarrow> I x \<Longrightarrow> I y"
  shows "I s'"
  using assms(1,2) unfolding reach_iff by (induction rule: rtranclp_induct) (auto intro: assms(3))

text \<open>A property that no state has at first was made true by some step of the run.\<close>

lemma cause:
  assumes "reach s s'" and "\<not> P s" and "P s'"
  obtains x y where "reach s x" "\<not> P x" "step x y" "P y" "reach y s'"
proof -
  have "\<exists>x y. reach s x \<and> \<not> P x \<and> step x y \<and> P y \<and> reach y s'"
    using assms unfolding reach_iff
  proof (induction rule: rtranclp_induct)
    case (step x y)
    show ?case
    proof (cases "P x")
      case True
      with step show ?thesis by (meson rtranclp.rtrancl_into_rtrancl)
    next
      case False
      with step show ?thesis by blast
    qed
  qed simp
  then show ?thesis using that by blast
qed

end

text \<open>
  A system in which every good state that is not final has a step that keeps it good and takes
  it nearer to the end.
\<close>

locale completing_system = transition_system step reach
  for step :: "'s \<Rightarrow> 's \<Rightarrow> bool" and reach :: "'s \<Rightarrow> 's \<Rightarrow> bool" +
  fixes good :: "'s \<Rightarrow> bool" and final :: "'s \<Rightarrow> bool" and left :: "'s \<Rightarrow> nat"
  assumes progress: "good s \<Longrightarrow> \<not> final s \<Longrightarrow> \<exists>s'. step s s' \<and> good s' \<and> left s' < left s"
begin

lemma completes: "good s \<Longrightarrow> \<exists>s'. reach s s' \<and> good s' \<and> final s'"
proof (induction "left s" arbitrary: s rule: less_induct)
  case less
  show ?case
  proof (cases "final s")
    case True
    with less.prems reach_refl show ?thesis by blast
  next
    case False
    then obtain s' where s': "step s s'" "good s'" "left s' < left s"
      using progress [OF less.prems] by blast
    with less.hyps obtain s'' where "reach s' s''" "good s''" "final s''" by blast
    with s'(1) reach_step [OF s'(1) reach_refl] reach_trans show ?thesis by blast
  qed
qed

end

text \<open>
  A detailed system that implements an abstract one: while an invariant holds, every detailed step
  is an abstract step or changes nothing that the abstraction shows.
\<close>

locale simulation = detailed: transition_system step reach + abstract: transition_system astep areach
  for step :: "'s \<Rightarrow> 's \<Rightarrow> bool" and reach :: "'s \<Rightarrow> 's \<Rightarrow> bool"
    and astep :: "'a \<Rightarrow> 'a \<Rightarrow> bool" and areach :: "'a \<Rightarrow> 'a \<Rightarrow> bool" +
  fixes abs :: "'s \<Rightarrow> 'a" and inv :: "'s \<Rightarrow> bool"
  assumes simulates: "step s s' \<Longrightarrow> inv s \<Longrightarrow> astep (abs s) (abs s') \<or> abs s' = abs s"
    and keeps: "step s s' \<Longrightarrow> inv s \<Longrightarrow> inv s'"
begin

lemma reach_abstract:
  assumes "reach s s'" and "inv s"
  shows "areach (abs s) (abs s') \<and> inv s'"
  using assms(1)
proof (rule detailed.invariant [where I = "\<lambda>x. areach (abs s) (abs x) \<and> inv x"])
  show "areach (abs s) (abs s) \<and> inv s" by (simp add: abstract.reach_refl assms(2))
next
  fix x y assume "step x y" and "areach (abs s) (abs x) \<and> inv x"
  then show "areach (abs s) (abs y) \<and> inv y"
    using simulates [of x y] keeps [of x y] abstract.reach_step by metis
qed

text \<open>What holds in every abstract state holds of what the detailed states show.\<close>

lemma transfer:
  assumes "reach s s'" and "inv s" and "\<And>a. areach (abs s) a \<Longrightarrow> P a"
  shows "P (abs s')"
  using reach_abstract [OF assms(1,2)] assms(3) by blast

end

end
