(* ===== verification/Dialer.thy ===== *)
theory Dialer
  imports Tls_Config Transitions
begin

text \<open>
  \<open>src/certloader/dialer.go\<close>: the dialer with a client certificate and a timeout for the TLS
  handshake.

  \<open>dialWithDialer\<close> runs three goroutines (the caller, the timer and the handshake) around a
  channel of capacity two. Its run is a step relation; each step is one action of one goroutine.
  How the handshake ends is up to the peer: the relation has a parameter that says which results
  the handshake can have.
\<close>


section \<open>The dialer\<close>

text \<open>The two implementations of the interface \<open>Dialer\<close> that the program passes in.\<close>

datatype Dialer =
    NetDialer int
  | HttpTunnel connect_URL int tls_Config

fun Dialer_Dial :: "world \<Rightarrow> Dialer \<Rightarrow> string \<Rightarrow> string \<Rightarrow> error option" where
  "Dialer_Dial w (NetDialer timeout) network address = dial_error w network address"
| "Dialer_Dial w (HttpTunnel url timeout config) network address =
     tunnel_error w (connect_String url) network address"

record mtlsDialer =
  dialer_cert :: "Certificate option"
  dialer_config :: tls_Config
  dialer_timeout :: int
  dialer_dialer :: Dialer

definition timeoutError :: error where
  "timeoutError = ''tls: DialWithDialer timed out''"

definition DialerWithCertificate ::
  "Certificate option \<Rightarrow> tls_Config \<Rightarrow> int \<Rightarrow> Dialer \<Rightarrow> mtlsDialer" where
  "DialerWithCertificate cert config timeout dialer =
     (let config = (if cert \<noteq> None \<and> config_GetClientCertificate config = None
                    then config\<lparr>config_GetClientCertificate := Some GetClientCertificate\<rparr> else config) in
      \<lparr>dialer_cert = cert, dialer_config = config, dialer_timeout = timeout, dialer_dialer = dialer\<rparr>)"


section \<open>dialWithDialer\<close>

datatype caller = Dialing | Receiving | Closing error | Returned "unit result"

datatype timer = Armed | Firing | Fired

datatype handshake = NotStarted | Running | Sending "error option" | Sent "error option"

datatype raw_conn = NoConn | Open | Closed

record dial_state =
  caller_at :: caller
  timer_at :: timer
  handshake_at :: handshake
  rawConn :: raw_conn
  errChannel :: "error option list"

definition errChannel_capacity :: nat where
  "errChannel_capacity = 2"

definition dial_start :: dial_state where
  "dial_start = \<lparr>caller_at = Dialing, timer_at = Armed, handshake_at = NotStarted, rawConn = NoConn,
     errChannel = []\<rparr>"

text \<open>
  The parameter \<open>can\<close> is the set of results of \<open>conn.Handshake()\<close>; a handshake succeeds on
  an open connection only.
\<close>

inductive dial_step :: "(error option \<Rightarrow> bool) \<Rightarrow> dial_state \<Rightarrow> dial_state \<Rightarrow> bool"
  for can :: "error option \<Rightarrow> bool" where
  timer_fires: "timer_at s = Armed \<Longrightarrow> dial_step can s (s\<lparr>timer_at := Firing\<rparr>)"
| timer_sends: "timer_at s = Firing \<Longrightarrow> length (errChannel s) < errChannel_capacity \<Longrightarrow>
    dial_step can s (s\<lparr>timer_at := Fired, errChannel := errChannel s @ [Some timeoutError]\<rparr>)"
| dial_fails: "caller_at s = Dialing \<Longrightarrow> dial_step can s (s\<lparr>caller_at := Returned (Inl err)\<rparr>)"
| dial_succeeds: "caller_at s = Dialing \<Longrightarrow>
    dial_step can s (s\<lparr>caller_at := Receiving, rawConn := Open, handshake_at := Running\<rparr>)"
| handshake_ends: "handshake_at s = Running \<Longrightarrow> can r \<Longrightarrow> (r = None \<longrightarrow> rawConn s = Open) \<Longrightarrow>
    dial_step can s (s\<lparr>handshake_at := Sending r\<rparr>)"
| handshake_sends: "handshake_at s = Sending r \<Longrightarrow> length (errChannel s) < errChannel_capacity \<Longrightarrow>
    dial_step can s (s\<lparr>handshake_at := Sent r, errChannel := errChannel s @ [r]\<rparr>)"
| receives_error: "caller_at s = Receiving \<Longrightarrow> errChannel s = Some err # rest \<Longrightarrow>
    dial_step can s (s\<lparr>caller_at := Closing err, errChannel := rest\<rparr>)"
| receives_nil: "caller_at s = Receiving \<Longrightarrow> errChannel s = None # rest \<Longrightarrow>
    dial_step can s (s\<lparr>caller_at := Returned (Inr ()), errChannel := rest\<rparr>)"
| closes: "caller_at s = Closing err \<Longrightarrow>
    dial_step can s (s\<lparr>caller_at := Returned (Inl err), rawConn := Closed\<rparr>)"

declare dial_step.intros [step_intros]

inductive_cases dial_stepE: "dial_step can s s'"

definition dial_reachable :: "(error option \<Rightarrow> bool) \<Rightarrow> dial_state \<Rightarrow> bool" where
  "dial_reachable can s \<longleftrightarrow> (dial_step can)\<^sup>*\<^sup>* dial_start s"

text \<open>
  The method \<open>Dial\<close>: the results that a call can return. If the inner dialer fails, its error is
  returned; otherwise the run goes on with the open connection.
\<close>

definition mtlsDialer_Dial ::
  "world \<Rightarrow> (error option \<Rightarrow> bool) \<Rightarrow> mtlsDialer \<Rightarrow> string \<Rightarrow> string \<Rightarrow> unit result \<Rightarrow> bool" where
  "mtlsDialer_Dial w can d network address result \<longleftrightarrow>
     (case Dialer_Dial w (dialer_dialer d) network address of
        Some err \<Rightarrow> result = Inl err
      | None \<Rightarrow> \<exists>s. dial_reachable can s \<and> rawConn s \<noteq> NoConn \<and> caller_at s = Returned result)"


section \<open>The invariant\<close>

text \<open>How many sends to the channel are still to come.\<close>

fun timer_sends_left :: "timer \<Rightarrow> nat" where
  "timer_sends_left Fired = 0" | "timer_sends_left _ = 1"

fun handshake_sends_left :: "handshake \<Rightarrow> nat" where
  "handshake_sends_left (Sent r) = 0" | "handshake_sends_left _ = 1"

definition received :: "dial_state \<Rightarrow> bool" where
  "received s \<longleftrightarrow> caller_at s \<notin> {Dialing, Receiving} \<and> rawConn s \<noteq> NoConn"

definition sends_of :: "dial_state \<Rightarrow> error option set" where
  "sends_of s = (if timer_at s = Fired then {Some timeoutError} else {}) \<union>
     (case handshake_at s of Sent r \<Rightarrow> {r} | _ \<Rightarrow> {})"

text \<open>Every send that was made or is to come is in the channel, received, or still ahead.\<close>

definition channel_inv :: "dial_state \<Rightarrow> bool" where
  "channel_inv s \<longleftrightarrow>
     length (errChannel s) + timer_sends_left (timer_at s) + handshake_sends_left (handshake_at s) +
       (if received s then 1 else 0) = 2 \<and> set (errChannel s) \<subseteq> sends_of s"

text \<open>The raw connection follows the caller.\<close>

fun raw_conn_inv_at :: "caller \<Rightarrow> raw_conn \<Rightarrow> handshake \<Rightarrow> bool" where
  "raw_conn_inv_at Dialing rc hs \<longleftrightarrow> rc = NoConn \<and> hs = NotStarted"
| "raw_conn_inv_at Receiving rc hs \<longleftrightarrow> rc = Open \<and> hs \<noteq> NotStarted"
| "raw_conn_inv_at (Closing err) rc hs \<longleftrightarrow> rc = Open \<and> hs \<noteq> NotStarted"
| "raw_conn_inv_at (Returned (Inl err)) rc hs \<longleftrightarrow> rc = NoConn \<and> hs = NotStarted \<or> rc = Closed \<and> hs \<noteq> NotStarted"
| "raw_conn_inv_at (Returned (Inr u)) rc hs \<longleftrightarrow> rc = Open \<and> hs = Sent None"

definition raw_conn_inv :: "dial_state \<Rightarrow> bool" where
  "raw_conn_inv s \<longleftrightarrow> raw_conn_inv_at (caller_at s) (rawConn s) (handshake_at s)"

text \<open>The results of the handshake are possible ones.\<close>

fun result_inv :: "(error option \<Rightarrow> bool) \<Rightarrow> handshake \<Rightarrow> bool" where
  "result_inv can (Sending r) \<longleftrightarrow> can r"
| "result_inv can (Sent r) \<longleftrightarrow> can r"
| "result_inv can _ \<longleftrightarrow> True"

definition dial_inv :: "(error option \<Rightarrow> bool) \<Rightarrow> dial_state \<Rightarrow> bool" where
  "dial_inv can s \<longleftrightarrow> channel_inv s \<and> raw_conn_inv s \<and> result_inv can (handshake_at s)"

lemma dial_inv_start: "dial_inv can dial_start"
  by (simp add: dial_inv_def channel_inv_def raw_conn_inv_def dial_start_def received_def)

lemma nil_is_handshake:
  assumes "channel_inv s" and "None \<in> set (errChannel s)"
  shows "handshake_at s = Sent None"
  using assms by (cases "handshake_at s") (auto simp: channel_inv_def sends_of_def split: if_splits)

lemma channel_inv_step:
  assumes "dial_step can s s'" and "channel_inv s" and "raw_conn_inv s"
  shows "channel_inv s'"
  using assms
  by cases (auto simp: channel_inv_def raw_conn_inv_def received_def sends_of_def split: if_splits)

lemma raw_conn_inv_step:
  assumes "dial_step can s s'" and "channel_inv s" and "raw_conn_inv s"
  shows "raw_conn_inv s'"
  using assms
proof cases
  case (receives_nil rest)
  then show ?thesis
    using assms(3) nil_is_handshake [OF assms(2)] by (simp add: raw_conn_inv_def)
next
  case handshake_ends
  then show ?thesis
    using assms(3) by (auto simp: raw_conn_inv_def elim!: raw_conn_inv_at.elims)
next
  case handshake_sends
  then show ?thesis
    using assms(3) by (auto simp: raw_conn_inv_def elim!: raw_conn_inv_at.elims)
qed (use assms(3) in \<open>simp_all add: raw_conn_inv_def\<close>)

lemma dial_inv_step:
  assumes "dial_step can s s'" and "dial_inv can s"
  shows "dial_inv can s'"
proof -
  have "result_inv can (handshake_at s')"
    using assms by cases (auto simp: dial_inv_def)
  then show ?thesis
    using assms channel_inv_step raw_conn_inv_step by (auto simp: dial_inv_def)
qed

interpretation dials: transition_system "dial_step can" "(dial_step can)\<^sup>*\<^sup>*" for can
  by unfold_locales simp

lemma dial_reachable_start: "dial_reachable can dial_start"
  by (simp add: dial_reachable_def)

lemma dial_reachable_step: "dial_step can s t \<Longrightarrow> dial_reachable can s \<Longrightarrow> dial_reachable can t"
  unfolding dial_reachable_def by (rule dials.reach_step)

lemma dial_inv_reachable: "dial_reachable can s \<Longrightarrow> dial_inv can s"
  unfolding dial_reachable_def by (erule dials.invariant) (auto intro: dial_inv_start dial_inv_step)


section \<open>Termination\<close>

fun caller_left :: "caller \<Rightarrow> nat" where
  "caller_left Dialing = 10" | "caller_left Receiving = 2" | "caller_left (Closing err) = 1"
| "caller_left (Returned r) = 0"

fun timer_left :: "timer \<Rightarrow> nat" where
  "timer_left Armed = 2" | "timer_left Firing = 1" | "timer_left Fired = 0"

fun handshake_left :: "handshake \<Rightarrow> nat" where
  "handshake_left NotStarted = 3" | "handshake_left Running = 2" | "handshake_left (Sending r) = 1"
| "handshake_left (Sent r) = 0"

definition dial_left :: "dial_state \<Rightarrow> nat" where
  "dial_left s = caller_left (caller_at s) + timer_left (timer_at s) + handshake_left (handshake_at s)"

lemma dial_left_step: "dial_step can s s' \<Longrightarrow> dial_left s' < dial_left s"
  by (erule dial_stepE) (simp_all add: dial_left_def)

lemma sends_fit:
  assumes "channel_inv s" and "timer_at s = Firing \<or> handshake_at s = Sending r"
  shows "length (errChannel s) < errChannel_capacity"
  using assms by (auto simp: channel_inv_def errChannel_capacity_def split: if_splits)

lemma fired_delivers:
  assumes "channel_inv s" and "timer_at s = Fired" and "caller_at s = Receiving"
  shows "errChannel s \<noteq> []"
  using assms by (cases "handshake_at s") (auto simp: channel_inv_def received_def)

lemma dial_stuck_returned:
  assumes "dial_inv can s" and "\<And>s'. \<not> dial_step can s s'"
  shows "\<exists>r. caller_at s = Returned r"
proof (cases "caller_at s")
  case Dialing
  then show ?thesis using assms(2) dial_fails by blast
next
  case (Closing err)
  then show ?thesis using assms(2) closes by blast
next
  case Receiving
  have "timer_at s = Fired"
  proof (cases "timer_at s")
    case Armed
    then show ?thesis using assms(2) timer_fires by blast
  next
    case Firing
    with assms(1) have "length (errChannel s) < errChannel_capacity"
      by (intro sends_fit) (auto simp: dial_inv_def)
    with Firing show ?thesis using assms(2) timer_sends by blast
  qed simp
  then obtain e rest where "errChannel s = e # rest"
    using Receiving assms(1) fired_delivers [of s] by (auto simp: dial_inv_def neq_Nil_conv)
  with Receiving assms(2) show ?thesis
    by (cases e) (blast intro: receives_nil receives_error)+
qed simp


section \<open>Properties\<close>

text \<open>
  Neither the timer nor the handshake goroutine ever blocks on the channel: whenever one of
  them is about to send, the channel of capacity two has room, also when the caller has gone.
  No goroutine is leaked.
\<close>

theorem dialWithDialer_sends_never_block:
  assumes "dial_reachable can s" and "timer_at s = Firing \<or> handshake_at s = Sending r"
  shows "length (errChannel s) < errChannel_capacity"
  using assms dial_inv_reachable sends_fit by (auto simp: dial_inv_def)

definition sample_sending :: dial_state where
  "sample_sending = \<lparr>caller_at = Receiving, timer_at = Armed, handshake_at = Sending None, rawConn = Open,
     errChannel = []\<rparr>"

lemma sample_sending_reachable: "dial_reachable (\<lambda>r. r = None) sample_sending"
proof -
  let ?s1 = "dial_start\<lparr>caller_at := Receiving, rawConn := Open, handshake_at := Running\<rparr>"
  have "dial_reachable (\<lambda>r. r = None) ?s1"
    by (rule dial_reachable_step [OF dial_succeeds dial_reachable_start]) (simp add: dial_start_def)
  then have "dial_reachable (\<lambda>r. r = None) (?s1\<lparr>handshake_at := Sending None\<rparr>)"
    by (rule dial_reachable_step [OF handshake_ends, rotated -1]) simp_all
  then show ?thesis
    by (simp add: dial_start_def sample_sending_def)
qed

theorem dialWithDialer_sends_never_block_witness:
  "length (errChannel sample_sending) < errChannel_capacity"
  by (rule dialWithDialer_sends_never_block [OF sample_sending_reachable, of None])
    (simp add: sample_sending_def)

text \<open>
  C15. What \<open>dialWithDialer\<close> returns: a connection is returned only after a handshake that
  succeeded, with the raw connection open; after an error the raw connection is closed or was
  never made. A timeout or a failed handshake never leaks a connection.
\<close>

theorem dialWithDialer_result:
  assumes "dial_reachable can s" and "caller_at s = Returned result"
  shows "(case result of
      Inr _ \<Rightarrow> rawConn s = Open \<and> handshake_at s = Sent None \<and> can None
    | Inl _ \<Rightarrow> rawConn s \<noteq> Open)"
  using dial_inv_reachable [OF assms(1)] assms(2)
  by (cases result) (auto simp: dial_inv_def raw_conn_inv_def)

definition sample_timeout :: dial_state where
  "sample_timeout = \<lparr>caller_at = Returned (Inl timeoutError), timer_at = Fired, handshake_at = Running,
     rawConn = Closed, errChannel = []\<rparr>"

lemma sample_timeout_reachable: "dial_reachable can sample_timeout"
proof -
  let ?s1 = "dial_start\<lparr>caller_at := Receiving, rawConn := Open, handshake_at := Running\<rparr>"
  let ?s2 = "?s1\<lparr>timer_at := Firing\<rparr>"
  let ?s3 = "?s2\<lparr>timer_at := Fired, errChannel := errChannel ?s2 @ [Some timeoutError]\<rparr>"
  let ?s4 = "?s3\<lparr>caller_at := Closing timeoutError, errChannel := []\<rparr>"
  have "dial_reachable can ?s1"
    by (rule dial_reachable_step [OF dial_succeeds dial_reachable_start]) (simp add: dial_start_def)
  then have "dial_reachable can ?s2"
    by (rule dial_reachable_step [OF timer_fires, rotated -1]) (simp add: dial_start_def)
  then have "dial_reachable can ?s3"
    by (rule dial_reachable_step [OF timer_sends, rotated -1]) (simp_all add: dial_start_def errChannel_capacity_def)
  then have "dial_reachable can ?s4"
    by (rule dial_reachable_step [OF receives_error, rotated -1]) (simp_all add: dial_start_def)
  then have "dial_reachable can (?s4\<lparr>caller_at := Returned (Inl timeoutError), rawConn := Closed\<rparr>)"
    by (rule dial_reachable_step [OF closes, rotated -1]) simp
  then show ?thesis
    by (simp add: dial_start_def sample_timeout_def)
qed

theorem dialWithDialer_result_witness: "rawConn sample_timeout \<noteq> Open"
  using dialWithDialer_result [OF sample_timeout_reachable, of "Inl timeoutError"]
  by (simp add: sample_timeout_def)

lemma dial_success_reachable:
  assumes "can None"
  shows "\<exists>s. dial_reachable can s \<and> caller_at s = Returned (Inr ())"
proof -
  let ?s1 = "dial_start\<lparr>caller_at := Receiving, rawConn := Open, handshake_at := Running\<rparr>"
  let ?s2 = "?s1\<lparr>handshake_at := Sending None\<rparr>"
  let ?s3 = "?s2\<lparr>handshake_at := Sent None, errChannel := errChannel ?s2 @ [None]\<rparr>"
  have "dial_reachable can ?s1"
    by (rule dial_reachable_step [OF dial_succeeds dial_reachable_start]) (simp add: dial_start_def)
  then have "dial_reachable can ?s2"
    by (rule dial_reachable_step [OF handshake_ends, rotated -1]) (simp_all add: assms)
  then have "dial_reachable can ?s3"
    by (rule dial_reachable_step [OF handshake_sends, rotated -1]) (simp_all add: dial_start_def errChannel_capacity_def)
  then have "dial_reachable can (?s3\<lparr>caller_at := Returned (Inr ()), errChannel := []\<rparr>)"
    by (rule dial_reachable_step [OF receives_nil, rotated -1]) (simp_all add: dial_start_def)
  then show ?thesis by (intro exI) auto
qed

lemma mtlsDialer_Dial_Inr:
  "mtlsDialer_Dial w can d network address (Inr ()) \<longleftrightarrow>
   Dialer_Dial w (dialer_dialer d) network address = None \<and> can None"
proof
  show "mtlsDialer_Dial w can d network address (Inr ()) \<Longrightarrow>
    Dialer_Dial w (dialer_dialer d) network address = None \<and> can None"
    by (auto simp: mtlsDialer_Dial_def dial_inv_def raw_conn_inv_def dest!: dial_inv_reachable split: option.splits)
  assume can: "Dialer_Dial w (dialer_dialer d) network address = None \<and> can None"
  then obtain s where "dial_reachable can s" "caller_at s = Returned (Inr ())"
    using dial_success_reachable by blast
  with can dial_inv_reachable show "mtlsDialer_Dial w can d network address (Inr ())"
    by (fastforce simp: mtlsDialer_Dial_def dial_inv_def raw_conn_inv_def)
qed


end
