(* ===== verification/Signals.thy ===== *)
theory Signals
  imports Status Dialer
begin

text \<open>
  \<open>src/signals.go\<close> with the signal tables of \<open>src/unix.go\<close> and \<open>src/windows.go\<close>, and the
  type \<open>Context\<close> of \<open>src/main.go\<close>.

  \<open>signalHandler\<close> is a loop over the signals it receives; each signal comes with the world in
  which it is handled. The channel of \<open>signal.Notify\<close> is modelled by \<open>Notify\<close>: signals that
  were not asked for are not delivered, and a signal that finds the channel full is dropped. The
  handler returns when it has called \<open>Shutdown\<close>; while it waits for the next signal the result
  is \<open>Waiting\<close>.
\<close>


section \<open>Signals\<close>

datatype Signal = SIGINT | SIGTERM | SIGUSR1 | OtherSignal nat

text \<open>\<open>os.Interrupt\<close> is \<open>SIGINT\<close>.\<close>

definition shutdownSignals_unix :: "Signal list" where
  "shutdownSignals_unix = [SIGINT, SIGTERM]"

definition shutdownSignals_windows :: "Signal list" where
  "shutdownSignals_windows = [SIGINT]"

definition refreshSignals_unix :: "Signal list" where
  "refreshSignals_unix = [SIGUSR1]"

definition refreshSignals_windows :: "Signal list" where
  "refreshSignals_windows = []"

definition shutdownSignals :: "build \<Rightarrow> Signal list" where
  "shutdownSignals b = (if on_windows b then shutdownSignals_windows else shutdownSignals_unix)"

definition refreshSignals :: "build \<Rightarrow> Signal list" where
  "refreshSignals b = (if on_windows b then refreshSignals_windows else refreshSignals_unix)"

lemmas signal_builds [simp] =
  shutdownSignals_unix_def shutdownSignals_windows_def refreshSignals_unix_def refreshSignals_windows_def

fun isShutdownSignal_loop :: "Signal \<Rightarrow> Signal list \<Rightarrow> bool" where
  "isShutdownSignal_loop sig [] = False"
| "isShutdownSignal_loop sig (s # ss) = (if sig = s then True else isShutdownSignal_loop sig ss)"

definition isShutdownSignal :: "build \<Rightarrow> Signal \<Rightarrow> bool" where
  "isShutdownSignal b sig = isShutdownSignal_loop sig (shutdownSignals b)"

text \<open>The channel of capacity three, with the signals of \<open>append(shutdownSignals, refreshSignals...)\<close>.\<close>

definition Notify :: "build \<Rightarrow> Signal \<Rightarrow> Signal list \<Rightarrow> Signal list" where
  "Notify b sig signals =
     (if sig \<in> set (shutdownSignals b @ refreshSignals b) \<and> length signals < 3 then signals @ [sig]
      else signals)"


section \<open>Reloading\<close>

text \<open>
  Of the context the status handler, the certificate and the timeout are kept, and whether a
  status server runs; a nil certificate is \<open>None\<close>.
\<close>

record Context =
  status :: statusHandler
  statusHTTP :: bool
  context_shutdownTimeout :: int
  cert :: "Certificate option"

definition reload :: "world \<Rightarrow> Context \<Rightarrow> Context outcome" where
  "reload w ctx =
     (let ctx = ctx\<lparr>status := Reloading (status ctx)\<rparr> in
      case cert ctx of
        None \<Rightarrow> Panic nil_dereference
      | Some c \<Rightarrow>
          (case Reload w c of
             (c', Panic p) \<Rightarrow> Panic p
           | (c', _) \<Rightarrow>
               Value (ctx\<lparr>cert := Some c', status := Listening (status ctx)\<rparr>)))"

text \<open>
  \<open>reloadHandler\<close>: one reload per tick; an interval of zero disables it. The list has the world of
  each tick that has passed; \<open>time.Tick\<close> of a negative interval is a nil channel, on which no
  tick is ever received.
\<close>

fun reload_ticks :: "world list \<Rightarrow> Context \<Rightarrow> Context outcome" where
  "reload_ticks [] ctx = Value ctx"
| "reload_ticks (w # ws) ctx =
     (case reload w ctx of
        Value ctx' \<Rightarrow> reload_ticks ws ctx'
      | Failure err \<Rightarrow> Failure err
      | Panic p \<Rightarrow> Panic p)"

definition time_Tick :: "int \<Rightarrow> 'a list \<Rightarrow> 'a list" where
  "time_Tick interval ticks = (if interval \<le> 0 then [] else ticks)"

definition reloadHandler :: "int \<Rightarrow> world list \<Rightarrow> Context \<Rightarrow> Context outcome" where
  "reloadHandler interval ticks ctx =
     (if interval = 0 then Value ctx else reload_ticks (time_Tick interval ticks) ctx)"


section \<open>The handler\<close>

datatype shutdown_action = ShutdownStatusServer | ForceExitAfter int | ShutdownProxy

datatype handler_result = Waiting Context | ShutDown Context "shutdown_action list" | Crashed string

fun signalHandler :: "build \<Rightarrow> (Signal \<times> world) list \<Rightarrow> Context \<Rightarrow> handler_result" where
  "signalHandler b [] ctx = Waiting ctx"
| "signalHandler b ((sig, w) # signals) ctx =
     (if isShutdownSignal b sig
      then ShutDown ctx
        ((if statusHTTP ctx then [ShutdownStatusServer] else []) @
         [ForceExitAfter (context_shutdownTimeout ctx), ShutdownProxy])
      else (case reload w ctx of
              Value ctx' \<Rightarrow> signalHandler b signals ctx'
            | Failure err \<Rightarrow> Crashed err
            | Panic p \<Rightarrow> Crashed p))"


section \<open>Lemmas\<close>

lemma isShutdownSignal_iff [simp]: "isShutdownSignal b sig \<longleftrightarrow> sig \<in> set (shutdownSignals b)"
proof -
  have "isShutdownSignal_loop sig ss \<longleftrightarrow> sig \<in> set ss" for ss
    by (induction ss) auto
  then show ?thesis by (simp add: isShutdownSignal_def)
qed

text \<open>A certificate whose reloads never panic, as that of a program with sane libraries.\<close>

definition reload_total :: "world \<Rightarrow> Certificate \<Rightarrow> bool" where
  "reload_total w c \<longleftrightarrow> (case snd (Reload w c) of Panic _ \<Rightarrow> False | _ \<Rightarrow> True)"

lemma reload_Value:
  assumes "cert ctx = Some c" and "reload_total w c"
  shows "reload w ctx =
    Value (ctx\<lparr>status := (status ctx)\<lparr>listening := True, reloading := False\<rparr>, cert := Some (fst (Reload w c))\<rparr>)"
  using assms
  by (cases "Reload w c"; cases "snd (Reload w c)")
    (auto simp: reload_def reload_total_def Listening_def Reloading_def)

fun totals :: "world list \<Rightarrow> Certificate \<Rightarrow> bool" where
  "totals [] c = True"
| "totals (w # ws) c = (reload_total w c \<and> totals ws (fst (Reload w c)))"

definition reloaded :: "world list \<Rightarrow> Context \<Rightarrow> Certificate \<Rightarrow> Context" where
  "reloaded ws ctx c =
     (if ws = [] then ctx
      else ctx\<lparr>status := (status ctx)\<lparr>listening := True, reloading := False\<rparr>,
             cert := Some (reloads Reload ws c)\<rparr>)"

lemma reload_ticks_eq:
  assumes "cert ctx = Some c" and "totals ws c"
  shows "reload_ticks ws ctx = Value (reloaded ws ctx c)"
  using assms
proof (induction ws arbitrary: ctx c)
  case (Cons w ws)
  then have "reload_total w c" by simp
  with Cons show ?case
    by (simp add: reload_Value reloaded_def)
qed (simp add: reloaded_def)

lemma signalHandler_eq:
  assumes "cert ctx = Some c" and "totals (map snd refreshes) c"
    and "list_all (\<lambda>(sig, w). \<not> isShutdownSignal b sig) refreshes"
  shows "signalHandler b (refreshes @ rest) ctx = signalHandler b rest (reloaded (map snd refreshes) ctx c)"
  using assms
proof (induction refreshes arbitrary: ctx c)
  case (Cons r refreshes)
  obtain sig w where r: "r = (sig, w)" by fastforce
  with Cons.prems have "reload_total w c" by simp
  with Cons r show ?case
    by (simp add: reload_Value reloaded_def)
qed (simp add: reloaded_def)


section \<open>Properties\<close>

text \<open>
  Signal handling: refresh signals before a shutdown signal reload the certificate, each in its
  world; the first shutdown signal ends the handler with the shutdown of the status server (if
  there is one), the timer for the forced exit and one call of the proxy's \<open>Shutdown\<close>, in this
  order; later signals play no part. The certificate is then the one of the last successful
  reload, and the status is listening.
\<close>

theorem signalHandler_reloads_then_shuts_down:
  assumes "cert ctx = Some c" and "totals (map snd refreshes) c"
    and "list_all (\<lambda>(sig, w). \<not> isShutdownSignal b sig) refreshes" and "isShutdownSignal b sig"
  shows "signalHandler b (refreshes @ (sig, w) # rest) ctx =
    ShutDown (reloaded (map snd refreshes) ctx c)
      ((if statusHTTP ctx then [ShutdownStatusServer] else []) @
       [ForceExitAfter (context_shutdownTimeout ctx), ShutdownProxy])"
  using assms by (simp add: signalHandler_eq [OF assms(1-3)]) (simp add: reloaded_def)

definition sample_cert :: Certificate where
  "sample_cert = Certstore \<lparr>commonName = ''server'', certstore_cached = Some \<lparr>Certificate = [], PrivateKey = ''old'', Leaf = None\<rparr>\<rparr>"

definition sample_context :: Context where
  "sample_context = \<lparr>status = Listening newStatusHandler, statusHTTP = True, context_shutdownTimeout = 5 * 60 * second,
     cert = Some sample_cert\<rparr>"

lemma sample_context_cert: "cert sample_context = Some sample_cert"
  by (simp add: sample_context_def)

lemma sample_cert_broken: "Reload broken_world sample_cert = (sample_cert, Failure ''locked'')"
  by (simp add: sample_cert_def certstore_Reload_def sample_worlds)

lemma sample_context_reloaded: "reloaded [broken_world] sample_context sample_cert = sample_context"
  by (simp add: reloaded_def sample_context_def newStatusHandler_def Listening_def sample_cert_broken)

theorem signalHandler_reloads_then_shuts_down_witness:
  "signalHandler sample_build [(SIGUSR1, broken_world), (SIGTERM, broken_world), (SIGINT, broken_world)] sample_context =
   ShutDown sample_context [ShutdownStatusServer, ForceExitAfter 300000000000, ShutdownProxy]"
  using signalHandler_reloads_then_shuts_down [OF sample_context_cert, of "[(SIGUSR1, broken_world)]" sample_build SIGTERM
      broken_world "[(SIGINT, broken_world)]"]
  by (simp add: sample_context_reloaded reload_total_def sample_cert_broken sample_build_def shutdownSignals_def)
    (simp add: sample_context_def second_def)

text \<open>
  A context without a certificate (client mode with \<open>--disable-authentication\<close>) crashes on
  the first refresh signal, and on the first tick of a timed reload: the call goes to a nil
  interface.
\<close>

theorem reload_without_certificate_panics:
  assumes "cert ctx = None" and "\<not> isShutdownSignal b sig" and "0 < interval"
  shows "signalHandler b ((sig, w) # signals) ctx = Crashed nil_dereference \<and>
    reloadHandler interval (w # ticks) ctx = Panic nil_dereference"
  using assms by (simp add: reload_def reloadHandler_def time_Tick_def Let_def)

theorem reload_without_certificate_panics_witness:
  "signalHandler sample_build [(SIGUSR1, sample_world)] (sample_context\<lparr>cert := None\<rparr>) = Crashed nil_dereference"
  using reload_without_certificate_panics [of "sample_context\<lparr>cert := None\<rparr>" sample_build SIGUSR1 1 sample_world "[]" "[]"]
  by (simp add: sample_build_def shutdownSignals_def)

text \<open>
  Signals can be lost: while three signals are pending, a shutdown signal is dropped like any
  other. The channel never holds more than three, and only signals that were asked for.
\<close>

theorem Notify_bounded:
  "length (fold (Notify b) sigs []) \<le> 3 \<and>
   set (fold (Notify b) sigs []) \<subseteq> set (shutdownSignals b @ refreshSignals b) \<and>
   Notify sample_build SIGTERM (fold (Notify sample_build) [SIGUSR1, SIGUSR1, SIGUSR1] []) = [SIGUSR1, SIGUSR1, SIGUSR1]"
proof (intro conjI)
  show "length (fold (Notify b) sigs []) \<le> 3"
    by (induction sigs rule: rev_induct) (auto simp: Notify_def)
  show "set (fold (Notify b) sigs []) \<subseteq> set (shutdownSignals b @ refreshSignals b)"
    by (induction sigs rule: rev_induct) (auto simp: Notify_def)
  show "Notify sample_build SIGTERM (fold (Notify sample_build) [SIGUSR1, SIGUSR1, SIGUSR1] []) = [SIGUSR1, SIGUSR1, SIGUSR1]"
    by (simp add: Notify_def sample_build_def shutdownSignals_def refreshSignals_def)
qed

end
