(* ===== verification/Copy.thy ===== *)
theory Copy
  imports Flags "HOL-Library.Sublist"
begin

text \<open>
  The part of \<open>src/proxy/proxy.go\<close> that works on one pair of connections: \<open>forceHandshake\<close>,
  \<open>getProxyProtoHeaderFor\<close>, \<open>copyData\<close> and \<open>fuse\<close>.

  A connection is an \<open>endpoint\<close>: its dynamic type, which the code switches on, which of its two
  directions are still open, and whether its descriptor was closed. \<open>CloseRead\<close> and \<open>CloseWrite\<close>
  shut one direction of the connection and keep the descriptor; \<open>Close\<close> gives it back. \<open>io.CopyBuffer\<close> is the loop of the standard library over the
  results of the calls of \<open>Read\<close> and \<open>Write\<close>; a list of results that ends before the loop does
  stands for a call that is still blocked.
\<close>


section \<open>Connections\<close>

datatype conn_kind = TCPConn | UnixConn | TLSConn | OtherConn

record endpoint =
  kind :: conn_kind
  can_read :: bool
  can_write :: bool
  linger_zero :: bool
  descriptor_closed :: bool

definition new_endpoint :: "conn_kind \<Rightarrow> endpoint" where
  "new_endpoint k = \<lparr>kind = k, can_read = True, can_write = True, linger_zero = False, descriptor_closed = False\<rparr>"

definition SetLinger_zero :: "endpoint \<Rightarrow> endpoint" where
  "SetLinger_zero e = e\<lparr>linger_zero := True\<rparr>"

definition CloseRead :: "endpoint \<Rightarrow> endpoint" where
  "CloseRead e = e\<lparr>can_read := False\<rparr>"

definition CloseWrite :: "endpoint \<Rightarrow> endpoint" where
  "CloseWrite e = e\<lparr>can_write := False\<rparr>"

definition Close_conn :: "endpoint \<Rightarrow> endpoint" where
  "Close_conn e = e\<lparr>can_read := False, can_write := False, descriptor_closed := True\<rparr>"

definition shut :: "endpoint \<Rightarrow> bool" where
  "shut e \<longleftrightarrow> \<not> can_read e \<and> \<not> can_write e"


section \<open>The handshake\<close>

text \<open>
  \<open>forceHandshake\<close> for the results of its three calls: \<open>SetDeadline\<close>, \<open>Handshake\<close> (an error,
  and whether it is a timeout) and the final \<open>SetDeadline\<close>. The second component of the result
  is the change of \<open>timeoutCounter\<close>.
\<close>

definition forceHandshake ::
  "conn_kind \<Rightarrow> error option \<Rightarrow> (error \<times> bool) option \<Rightarrow> error option \<Rightarrow> error option \<times> int" where
  "forceHandshake k deadline handshake clear =
     (if k = TLSConn then
        (case deadline of
           Some err \<Rightarrow> (Some err, 0)
         | None \<Rightarrow>
             (let timeouts = (case handshake of Some (_, True) \<Rightarrow> 1 | _ \<Rightarrow> 0) in
              case handshake of
                Some (err, _) \<Rightarrow> (Some err, timeouts)
              | None \<Rightarrow>
                  (case clear of
                     Some err \<Rightarrow> (Some err, timeouts)
                   | None \<Rightarrow> (None, timeouts))))
      else (None, 0))"


section \<open>The proxy protocol header\<close>

datatype net_addr = TCPAddr IP int | UnixAddr string

datatype transport = TCPv4 | TCPv6

record proxy_header =
  header_Version :: int
  is_PROXY :: bool
  TransportProtocol :: transport
  SourceAddress :: IP
  DestinationAddress :: IP
  SourcePort :: "16 word"
  DestinationPort :: "16 word"

text \<open>The type assertions panic on an address that is not a TCP address.\<close>

definition getProxyProtoHeaderFor :: "net_addr \<Rightarrow> net_addr \<Rightarrow> proxy_header outcome" where
  "getProxyProtoHeaderFor remote local =
     (case remote of
        UnixAddr _ \<Rightarrow> Panic ''interface conversion''
      | TCPAddr sIP sPort \<Rightarrow>
          (case local of
             UnixAddr _ \<Rightarrow> Panic ''interface conversion''
           | TCPAddr dIP dPort \<Rightarrow> Value
               \<lparr>header_Version = 2, is_PROXY = True, TransportProtocol = TCPv4, SourceAddress = sIP,
                DestinationAddress = dIP, SourcePort = word_of_int sPort,
                DestinationPort = word_of_int dPort\<rparr>))"


section \<open>Copying\<close>

datatype read_end = More | EOF | ReadErr error

text \<open>
  The loop of \<open>io.CopyBuffer\<close>: the bytes written so far, and \<open>None\<close> while a call blocks or
  \<open>Some err\<close> with the error that the function returns.
\<close>

fun CopyBuffer ::
  "(string \<times> read_end) list \<Rightarrow> (nat \<times> error option) list \<Rightarrow> string \<Rightarrow> string \<times> error option option" where
  "CopyBuffer [] writes written = (written, None)"
| "CopyBuffer ((buf, er) # reads) writes written =
     (if length buf > 0 then
        (case writes of
           [] \<Rightarrow> (written, None)
         | (nw, ew) # writes' \<Rightarrow>
             (let written' = written @ take nw buf in
              case ew of
                Some err \<Rightarrow> (written', Some (Some err))
              | None \<Rightarrow>
                  if length buf \<noteq> nw then (written', Some (Some ''short write''))
                  else (case er of
                     More \<Rightarrow> CopyBuffer reads writes' written'
                   | EOF \<Rightarrow> (written', Some None)
                   | ReadErr err \<Rightarrow> (written', Some (Some err)))))
      else (case er of
              More \<Rightarrow> CopyBuffer reads writes written
            | EOF \<Rightarrow> (written, Some None)
            | ReadErr err \<Rightarrow> (written, Some (Some err))))"

definition close_source :: "endpoint \<Rightarrow> endpoint" where
  "close_source src =
     (case kind src of
        TCPConn \<Rightarrow> CloseRead (SetLinger_zero src)
      | UnixConn \<Rightarrow> CloseRead src
      | _ \<Rightarrow> Close_conn src)"

definition close_destination :: "endpoint \<Rightarrow> endpoint" where
  "close_destination dst =
     (case kind dst of
        TCPConn \<Rightarrow> CloseWrite (SetLinger_zero dst)
      | TLSConn \<Rightarrow> CloseWrite dst
      | UnixConn \<Rightarrow> CloseWrite dst
      | OtherConn \<Rightarrow> Close_conn dst)"

text \<open>The end of \<open>copyData\<close>, after \<open>io.CopyBuffer\<close> has returned, whatever it returned.\<close>

definition copyData_closes :: "endpoint \<Rightarrow> endpoint \<Rightarrow> endpoint \<times> endpoint" where
  "copyData_closes dst src = (close_destination dst, close_source src)"

lemmas endpoint_defs = SetLinger_zero_def CloseRead_def CloseWrite_def Close_conn_def
  close_source_def close_destination_def copyData_closes_def shut_def new_endpoint_def

lemma close_keeps_kind [simp]: "kind (close_source e) = kind e" "kind (close_destination e) = kind e"
  by (simp_all add: endpoint_defs split: conn_kind.splits)

lemma close_source_can [simp]:
  "\<not> can_read (close_source e)"
  "can_write (close_source e) \<longleftrightarrow> can_write e \<and> kind e \<in> {TCPConn, UnixConn}"
  by (auto simp: endpoint_defs split: conn_kind.splits)

lemma close_destination_can [simp]:
  "\<not> can_write (close_destination e)"
  "can_read (close_destination e) \<longleftrightarrow> can_read e \<and> kind e \<noteq> OtherConn"
  by (auto simp: endpoint_defs split: conn_kind.splits)

lemma close_released [simp]:
  "descriptor_closed (close_source e) \<longleftrightarrow> descriptor_closed e \<or> kind e \<notin> {TCPConn, UnixConn}"
  "descriptor_closed (close_destination e) \<longleftrightarrow> descriptor_closed e \<or> kind e = OtherConn"
  by (auto simp: endpoint_defs split: conn_kind.splits)


section \<open>What is copied\<close>

lemma CopyBuffer_prefix:
  "\<exists>t. prefix t (concat (map fst reads)) \<and> fst (CopyBuffer reads writes written) = written @ t"
proof (induction reads writes written rule: CopyBuffer.induct)
  case (2 buf er reads writes written)
  have stop: "\<exists>t. prefix t (buf @ concat (map fst reads)) \<and> written @ take n buf = written @ t" for n
    by (intro exI [of _ "take n buf"]) (auto intro: prefix_order.trans [OF take_is_prefix])
  show ?case
  proof (cases "buf = []")
    case True
    with 2 show ?thesis by (auto split: read_end.splits)
  next
    case False
    note nonempty = this
    show ?thesis
    proof (cases writes)
      case Nil
      with False show ?thesis by (auto intro: exI [of _ "[]"])
    next
      case (Cons x writes')
      obtain nw ew where x: "x = (nw, ew)" by fastforce
      show ?thesis
      proof (cases "ew = None \<and> length buf = nw \<and> er = More")
        case True
        then have "\<exists>t. prefix t (concat (map fst reads)) \<and>
            fst (CopyBuffer reads writes' (written @ buf)) = (written @ buf) @ t"
          using 2(1) [of x writes' nw ew "written @ buf"] nonempty Cons x by auto
        then obtain t where "prefix t (concat (map fst reads))"
            "fst (CopyBuffer reads writes' (written @ buf)) = written @ buf @ t" by auto
        with True nonempty Cons x show ?thesis
          by (intro exI [of _ "buf @ t"]) auto
      next
        case False
        then have "fst (CopyBuffer ((buf, er) # reads) writes written) = written @ take nw buf"
          using nonempty Cons x by (auto simp: Let_def split: option.splits read_end.splits)
        with stop [of nw] show ?thesis by simp
      qed
    qed
  qed
qed simp


lemma CopyBuffer_EOF:
  "CopyBuffer reads writes written = (out, Some None) \<Longrightarrow>
   \<exists>before buf after. reads = before @ (buf, EOF) # after \<and> list_all (\<lambda>(_, e). e = More) before \<and>
     out = written @ concat (map fst before) @ buf"
proof (induction reads writes written rule: CopyBuffer.induct)
  case (2 buf er reads writes written)
  show ?case
  proof (cases "er = More")
    case False
    with 2(3) have "er = EOF \<and> out = written @ buf"
      by (auto simp: Let_def split: if_splits list.splits option.splits read_end.splits)
    then show ?thesis by (intro exI [of _ "[]"] exI [of _ buf] exI [of _ reads]) simp
  next
    case True
    obtain writes' where "CopyBuffer reads writes' (written @ buf) = (out, Some None)"
      and IH: "\<exists>before b after. reads = before @ (b, EOF) # after \<and> list_all (\<lambda>(_, e). e = More) before \<and>
        out = (written @ buf) @ concat (map fst before) @ b"
    proof (cases "buf = []")
      case True
      with 2(2,3) \<open>er = More\<close> that show ?thesis by auto
    next
      case False
      then obtain nw writes' where "writes = (nw, None) # writes'" "length buf = nw"
        "CopyBuffer reads writes' (written @ buf) = (out, Some None)"
        using 2(3) \<open>er = More\<close> by (auto simp: Let_def split: if_splits list.splits option.splits)
      with 2(1) [of "(nw, None)" writes' nw None "written @ buf"] False \<open>er = More\<close> that show ?thesis by auto
    qed
    then obtain before b after where "reads = before @ (b, EOF) # after" "list_all (\<lambda>(_, e). e = More) before"
      "out = (written @ buf) @ concat (map fst before) @ b" by blast
    with True show ?thesis
      by (intro exI [of _ "(buf, er) # before"]) auto
  qed
qed simp


section \<open>Properties\<close>

text \<open>
  Copying is faithful at every moment: the bytes that were written to the destination are a
  prefix of the bytes that were read from the source, in order and unchanged, whatever errors,
  short writes or blocked calls occur.
\<close>

theorem CopyBuffer_writes_prefix:
  "prefix (fst (CopyBuffer reads writes [])) (concat (map fst reads))"
  using CopyBuffer_prefix [of reads writes "[]"] by auto

text \<open>
  Copying is complete: when it ends without an error, the source has reached its end, and
  exactly the bytes read up to that point have been written.
\<close>

theorem CopyBuffer_complete:
  assumes "CopyBuffer reads writes [] = (out, Some None)"
  shows "\<exists>before buf after. reads = before @ (buf, EOF) # after \<and>
    list_all (\<lambda>(_, e). e = More) before \<and> out = concat (map fst before) @ buf"
  using CopyBuffer_EOF [OF assms] by simp

theorem CopyBuffer_complete_witness:
  "\<exists>before buf after. [(''GET '', More), (''/'', EOF)] = before @ (buf, EOF) # after \<and>
    list_all (\<lambda>(_, e). e = More) before \<and> ''GET /'' = concat (map fst before) @ buf"
  by (rule CopyBuffer_complete [where writes = "[(4, None), (1, None)]"]) simp

text \<open>
  The handshake of a TLS connection passes only if the deadline could be set, the handshake
  succeeded and the deadline could be cleared; a timeout is counted exactly when the handshake
  ended with a timeout. A connection that is not TLS has no handshake.
\<close>

theorem forceHandshake_passes:
  "(fst (forceHandshake k deadline handshake clear) = None \<longleftrightarrow>
     (if k = TLSConn then deadline = None \<and> handshake = None \<and> clear = None else True)) \<and>
   snd (forceHandshake k deadline handshake clear) =
     (if k = TLSConn \<and> deadline = None \<and> (\<exists>err. handshake = Some (err, True)) then 1 else 0)"
  by (auto simp: forceHandshake_def Let_def split: option.splits bool.splits)


text \<open>
  Half-closed connections: when one direction ends, from a source \<open>src\<close> to a destination
  \<open>dst\<close>, the opposite direction (reading from \<open>dst\<close>, writing to \<open>src\<close>) stays usable if the
  source is a TCP or unix connection and the destination is a known type; a TLS source is closed
  in both directions.
\<close>

theorem copyData_half_close:
  assumes "can_read dst" and "can_write src" and "copyData_closes dst src = (dst', src')"
  shows "(can_read dst' \<and> can_write src' \<longleftrightarrow> kind dst \<noteq> OtherConn \<and> kind src \<in> {TCPConn, UnixConn}) \<and>
    \<not> can_write dst' \<and> \<not> can_read src'"
  using assms by (auto simp: copyData_closes_def)

theorem copyData_half_close_witness:
  "can_write (snd (copyData_closes (new_endpoint TLSConn) (new_endpoint TCPConn))) \<and>
   \<not> can_write (snd (copyData_closes (new_endpoint TCPConn) (new_endpoint TLSConn)))"
  using copyData_half_close [of "new_endpoint TLSConn" "new_endpoint TCPConn"]
    copyData_half_close [of "new_endpoint TCPConn" "new_endpoint TLSConn"]
  by (auto simp: endpoint_defs)

end
