(* ===== verification/Proxy.thy ===== *)
theory Proxy
  imports Copy Transitions
begin

text \<open>
  \<open>src/proxy/proxy.go\<close>: the proxy as a system of goroutines.

  The shared state is the record \<open>proxy_state\<close>: the quit flag, the listener, the wait group and
  the counters, with the position of each goroutine: the accept loop, the callers of
  \<open>Shutdown\<close> and one handler per accepted connection. A step is one action of one goroutine on
  the shared state (an atomic load or store, a call of the wait group, one close); goroutines
  interleave freely. What the network and the peers do (which handshakes, dials, writes and reads
  succeed and when) is left open in the rules.

  A handler runs on its own connection and changes the shared counters only, so its steps are a
  relation of their own, \<open>conn_step\<close>, that is labelled with the change of the counters.
\<close>


section \<open>Handlers of connections\<close>

datatype copier = Copying | ClosingSrc | ClosingDst | CopyDone

text \<open>
  Where a handler is. In \<open>Fusing a b\<close> the copiers run: \<open>a\<close> is \<open>copyData(client, backend, wg)\<close>
  and \<open>b\<close> is \<open>copyData(backend, client, wg)\<close>. From \<open>Unregistering\<close> on, the deferred calls run:
  \<open>handlers.Done\<close> (of fused connections), \<open>openCounter.Dec\<close>, \<open>conn.Close\<close>.
\<close>

datatype stage =
    Handshaking | Connecting | SendingHeader | Counting | Registering | Fusing copier copier
  | Unregistering | Decrementing | ClosingClient | Finished

record conn =
  stage :: stage
  peer :: "string list"
  RemoteAddr :: net_addr
  LocalAddr :: net_addr
  client :: endpoint
  backend :: "endpoint option"
  backend_peer :: "string list"

record delta =
  d_open :: int
  d_success :: int
  d_error :: int
  d_timeout :: int
  d_handlers :: int

definition no_delta :: delta where
  "no_delta = \<lparr>d_open = 0, d_success = 0, d_error = 0, d_timeout = 0, d_handlers = 0\<rparr>"

text \<open>
  What the proxy can meet on its two sides: the connections that \<open>Accept\<close> of the listener can
  return (type, remote and local address), the presented certificates for which the TLS handshake
  of \<open>crypto/tls\<close> can succeed, and the connections that \<open>Dial\<close> can return (type, and the certificates
  that the other side has presented, none on a plain connection).
\<close>

record peers =
  listener_returns :: "conn_kind \<Rightarrow> net_addr \<Rightarrow> net_addr \<Rightarrow> bool"
  handshake_accepts :: "string list \<Rightarrow> bool"
  dial_returns :: "conn_kind \<Rightarrow> string list \<Rightarrow> bool"

text \<open>The parameters of a handler are its peers \<open>net\<close> and the flag \<open>proxyProtocol\<close>, \<open>pp\<close>.\<close>

inductive conn_step :: "peers \<Rightarrow> bool \<Rightarrow> conn \<Rightarrow> delta \<Rightarrow> conn \<Rightarrow> bool"
  for net :: peers and pp :: bool where
  handshakes:
    "stage c = Handshaking \<Longrightarrow> forceHandshake (kind (client c)) deadline handshake clear = (err, timeouts) \<Longrightarrow>
     (kind (client c) = TLSConn \<and> handshake = None \<longrightarrow> handshake_accepts net (peer c)) \<Longrightarrow>
     conn_step net pp c (no_delta\<lparr>d_error := (if err = None then 0 else 1), d_timeout := timeouts\<rparr>)
       (c\<lparr>stage := (if err = None then Connecting else Decrementing)\<rparr>)"
| dial_fails:
    "stage c = Connecting \<Longrightarrow> conn_step net pp c no_delta (c\<lparr>stage := Decrementing\<rparr>)"
| dials:
    "stage c = Connecting \<Longrightarrow> dial_returns net k certs \<Longrightarrow>
     conn_step net pp c no_delta
       (c\<lparr>backend := Some (new_endpoint k), backend_peer := certs, stage := (if pp then SendingHeader else Counting)\<rparr>)"
| sends_header:
    "stage c = SendingHeader \<Longrightarrow> getProxyProtoHeaderFor (RemoteAddr c) (LocalAddr c) = Value h \<Longrightarrow>
     conn_step net pp c no_delta
       (c\<lparr>stage := (if err = (None :: error option) then Counting else Decrementing)\<rparr>)"
| counts:
    "stage c = Counting \<Longrightarrow> conn_step net pp c (no_delta\<lparr>d_success := 1\<rparr>) (c\<lparr>stage := Registering\<rparr>)"
| registers:
    "stage c = Registering \<Longrightarrow>
     conn_step net pp c (no_delta\<lparr>d_handlers := 1\<rparr>) (c\<lparr>stage := Fusing Copying Copying\<rparr>)"
| copied_to_client:
    "stage c = Fusing Copying b \<Longrightarrow> conn_step net pp c no_delta (c\<lparr>stage := Fusing ClosingSrc b\<rparr>)"
| closes_backend_source:
    "stage c = Fusing ClosingSrc b \<Longrightarrow> backend c = Some e \<Longrightarrow>
     conn_step net pp c no_delta (c\<lparr>backend := Some (close_source e), stage := Fusing ClosingDst b\<rparr>)"
| closes_client_destination:
    "stage c = Fusing ClosingDst b \<Longrightarrow>
     conn_step net pp c no_delta (c\<lparr>client := close_destination (client c), stage := Fusing CopyDone b\<rparr>)"
| copied_to_backend:
    "stage c = Fusing a Copying \<Longrightarrow> conn_step net pp c no_delta (c\<lparr>stage := Fusing a ClosingSrc\<rparr>)"
| closes_client_source:
    "stage c = Fusing a ClosingSrc \<Longrightarrow>
     conn_step net pp c no_delta (c\<lparr>client := close_source (client c), stage := Fusing a ClosingDst\<rparr>)"
| closes_backend_destination:
    "stage c = Fusing a ClosingDst \<Longrightarrow> backend c = Some e \<Longrightarrow>
     conn_step net pp c no_delta (c\<lparr>backend := Some (close_destination e), stage := Fusing a CopyDone\<rparr>)"
| fuse_returns:
    "stage c = Fusing CopyDone CopyDone \<Longrightarrow> conn_step net pp c no_delta (c\<lparr>stage := Unregistering\<rparr>)"
| unregisters:
    "stage c = Unregistering \<Longrightarrow>
     conn_step net pp c (no_delta\<lparr>d_handlers := - 1\<rparr>) (c\<lparr>stage := Decrementing\<rparr>)"
| decrements:
    "stage c = Decrementing \<Longrightarrow>
     conn_step net pp c (no_delta\<lparr>d_open := - 1\<rparr>) (c\<lparr>stage := ClosingClient\<rparr>)"
| closes_client:
    "stage c = ClosingClient \<Longrightarrow>
     conn_step net pp c no_delta (c\<lparr>client := Close_conn (client c), stage := Finished\<rparr>)"

declare conn_step.intros [step_intros]

inductive_cases conn_stepE: "conn_step net pp c d c'"


section \<open>The proxy\<close>

datatype accept_loop = Accepting | CheckingQuit | Stopped

datatype shutdown_call = Idle | LoadQuit | StoreQuit | CloseListener | DoneHandlers

record proxy_state =
  quit :: bool
  listener_open :: bool
  proxyProtocol :: bool
  handlers :: int
  accept_at :: accept_loop
  shutdowns :: "shutdown_call list"
  conns :: "conn list"
  openCounter :: int
  totalCounter :: int
  successCounter :: int
  errorCounter :: int
  timeoutCounter :: int
  panicked :: bool

text \<open>\<open>New\<close>, with the number of goroutines that may call \<open>Shutdown\<close>.\<close>

definition New :: "nat \<Rightarrow> proxy_state" where
  "New n = \<lparr>quit = False, listener_open = True, proxyProtocol = False, handlers = 1,
     accept_at = Accepting, shutdowns = replicate n Idle, conns = [], openCounter = 0,
     totalCounter = 0, successCounter = 0, errorCounter = 0, timeoutCounter = 0, panicked = False\<rparr>"

definition EnableProxyProtocol :: "proxy_state \<Rightarrow> proxy_state" where
  "EnableProxyProtocol p = p\<lparr>proxyProtocol := True\<rparr>"

text \<open>\<open>sync.WaitGroup.Add\<close> panics on a negative counter.\<close>

definition wg_Add :: "int \<Rightarrow> proxy_state \<Rightarrow> proxy_state" where
  "wg_Add n p = p\<lparr>handlers := handlers p + n, panicked := panicked p \<or> handlers p + n < 0\<rparr>"

text \<open>\<open>Wait\<close> returns in the states with a zero counter.\<close>

definition Wait_returns :: "proxy_state \<Rightarrow> bool" where
  "Wait_returns p \<longleftrightarrow> handlers p = 0"

definition apply_delta :: "delta \<Rightarrow> proxy_state \<Rightarrow> proxy_state" where
  "apply_delta d p = wg_Add (d_handlers d)
     (p\<lparr>openCounter := openCounter p + d_open d, successCounter := successCounter p + d_success d,
        errorCounter := errorCounter p + d_error d, timeoutCounter := timeoutCounter p + d_timeout d\<rparr>)"

definition new_conn :: "conn_kind \<Rightarrow> string list \<Rightarrow> net_addr \<Rightarrow> net_addr \<Rightarrow> conn" where
  "new_conn k certs remote local = \<lparr>stage = Handshaking, peer = certs, RemoteAddr = remote, LocalAddr = local,
     client = new_endpoint k, backend = None, backend_peer = []\<rparr>"

text \<open>
  One atomic step of a call of \<open>Shutdown\<close>: the position after it and the state after it.
\<close>

fun Shutdown :: "shutdown_call \<Rightarrow> proxy_state \<Rightarrow> shutdown_call \<times> proxy_state" where
  "Shutdown Idle p = (LoadQuit, p)"
| "Shutdown LoadQuit p = (if quit p then (Idle, p) else (StoreQuit, p))"
| "Shutdown StoreQuit p = (CloseListener, p\<lparr>quit := True\<rparr>)"
| "Shutdown CloseListener p = (DoneHandlers, p\<lparr>listener_open := False\<rparr>)"
| "Shutdown DoneHandlers p = (Idle, wg_Add (- 1) p)"

inductive proxy_step :: "peers \<Rightarrow> proxy_state \<Rightarrow> proxy_state \<Rightarrow> bool"
  for net :: peers where
  accepts_conn:
    "\<not> panicked p \<Longrightarrow> accept_at p = Accepting \<Longrightarrow> listener_open p \<Longrightarrow>
     listener_returns net k remote local \<Longrightarrow>
     proxy_step net p (p\<lparr>openCounter := openCounter p + 1, totalCounter := totalCounter p + 1,
       conns := conns p @ [new_conn k certs remote local]\<rparr>)"
| accept_fails:
    "\<not> panicked p \<Longrightarrow> accept_at p = Accepting \<Longrightarrow> proxy_step net p (p\<lparr>accept_at := CheckingQuit\<rparr>)"
| accept_stops:
    "\<not> panicked p \<Longrightarrow> accept_at p = CheckingQuit \<Longrightarrow> quit p \<Longrightarrow>
     proxy_step net p (p\<lparr>accept_at := Stopped\<rparr>)"
| accept_retries:
    "\<not> panicked p \<Longrightarrow> accept_at p = CheckingQuit \<Longrightarrow> \<not> quit p \<Longrightarrow>
     proxy_step net p (p\<lparr>accept_at := Accepting, errorCounter := errorCounter p + 1\<rparr>)"
| handler_steps:
    "\<not> panicked p \<Longrightarrow> i < length (conns p) \<Longrightarrow>
     conn_step net (proxyProtocol p) (conns p ! i) d c \<Longrightarrow>
     proxy_step net p (apply_delta d (p\<lparr>conns := (conns p)[i := c]\<rparr>))"
| handler_panics:
    "\<not> panicked p \<Longrightarrow> i < length (conns p) \<Longrightarrow> stage (conns p ! i) = SendingHeader \<Longrightarrow>
     getProxyProtoHeaderFor (RemoteAddr (conns p ! i)) (LocalAddr (conns p ! i)) = Panic msg \<Longrightarrow>
     proxy_step net p (p\<lparr>panicked := True\<rparr>)"
| shutdown_steps:
    "\<not> panicked p \<Longrightarrow> i < length (shutdowns p) \<Longrightarrow> Shutdown (shutdowns p ! i) p = (next_call, p') \<Longrightarrow>
     proxy_step net p (p'\<lparr>shutdowns := (shutdowns p)[i := next_call]\<rparr>)"

declare proxy_step.intros [step_intros]

inductive_cases proxy_stepE: "proxy_step net p p'"

definition proxy_reachable :: "peers \<Rightarrow> proxy_state \<Rightarrow> proxy_state \<Rightarrow> bool" where
  "proxy_reachable net start p \<longleftrightarrow> (proxy_step net)\<^sup>*\<^sup>* start p"

interpretation proxies: transition_system "proxy_step net" "proxy_reachable net" for net
  by unfold_locales (simp add: proxy_reachable_def)

lemmas reachable_start = proxies.reach_refl
lemmas reachable_step = proxies.reach_step


section \<open>Invariants of a handler\<close>

text \<open>What a connection contributes to the wait group, to \<open>openCounter\<close>, and what it may still count.\<close>

definition holds :: "conn \<Rightarrow> int" where
  "holds c = (case stage c of Fusing a b \<Rightarrow> 1 | Unregistering \<Rightarrow> 1 | _ \<Rightarrow> 0)"

definition live :: "conn \<Rightarrow> int" where
  "live c = (if stage c \<in> {ClosingClient, Finished} then 0 else 1)"

definition uncounted :: "conn \<Rightarrow> int" where
  "uncounted c = (if stage c \<in> {Handshaking, Connecting, SendingHeader, Counting} then 1 else 0)"

lemma holds_nonneg: "0 \<le> holds c" and live_nonneg: "0 \<le> live c" and uncounted_nonneg: "0 \<le> uncounted c"
  by (simp_all add: holds_def live_def uncounted_def split: stage.splits)

lemma conn_step_delta:
  assumes "conn_step net pp c d c'"
  shows "holds c' = holds c + d_handlers d" "live c' = live c + d_open d"
    "d_success d + uncounted c' \<le> uncounted c" "0 \<le> d_success d"
  using assms by (cases; simp add: holds_def live_def uncounted_def no_delta_def)+

text \<open>How far the two copiers have closed the connections.\<close>

definition closed_by_copiers :: "copier \<Rightarrow> copier \<Rightarrow> endpoint \<Rightarrow> endpoint \<Rightarrow> bool" where
  "closed_by_copiers a b cl be \<longleftrightarrow>
     (a \<in> {ClosingDst, CopyDone} \<longrightarrow> \<not> can_read be) \<and> (a = CopyDone \<longrightarrow> \<not> can_write cl) \<and>
     (b \<in> {ClosingDst, CopyDone} \<longrightarrow> \<not> can_read cl) \<and> (b = CopyDone \<longrightarrow> \<not> can_write be)"

definition passed_handshake :: "stage \<Rightarrow> bool" where
  "passed_handshake st \<longleftrightarrow> st \<notin> {Handshaking, Decrementing, ClosingClient, Finished}"

definition conn_inv :: "peers \<Rightarrow> conn \<Rightarrow> bool" where
  "conn_inv net c \<longleftrightarrow>
     listener_returns net (kind (client c)) (RemoteAddr c) (LocalAddr c) \<and>
     (\<forall>e. backend c = Some e \<longrightarrow> dial_returns net (kind e) (backend_peer c)) \<and>
     (passed_handshake (stage c) \<and> kind (client c) = TLSConn \<longrightarrow> handshake_accepts net (peer c)) \<and>
     (passed_handshake (stage c) \<and> stage c \<noteq> Connecting \<longrightarrow> backend c \<noteq> None) \<and>
     (\<forall>a b. stage c = Fusing a b \<longrightarrow> closed_by_copiers a b (client c) (the (backend c))) \<and>
     (stage c = Unregistering \<longrightarrow> shut (client c) \<and> shut (the (backend c))) \<and>
     (stage c = Finished \<longrightarrow> shut (client c))"

lemma conn_inv_new:
  "listener_returns net k remote local \<Longrightarrow> conn_inv net (new_conn k certs remote local)"
  by (simp add: conn_inv_def new_conn_def new_endpoint_def passed_handshake_def)

lemma handshake_passes:
  "forceHandshake TLSConn deadline handshake clear = (None, timeouts) \<Longrightarrow> handshake = None"
  by (auto simp: forceHandshake_def Let_def split: option.splits)

lemma conn_inv_step:
  assumes "conn_step net pp c d c'" and "conn_inv net c"
  shows "conn_inv net c'"
  using assms
proof cases
  case handshakes
  then show ?thesis
    using handshake_passes assms(2) by (auto simp: conn_inv_def passed_handshake_def)
next
  case closes_backend_source
  with assms(2) show ?thesis
    by (auto simp: conn_inv_def passed_handshake_def closed_by_copiers_def)
next
  case closes_client_destination
  with assms(2) show ?thesis
    by (auto simp: conn_inv_def passed_handshake_def closed_by_copiers_def)
next
  case closes_client_source
  with assms(2) show ?thesis
    by (auto simp: conn_inv_def passed_handshake_def closed_by_copiers_def)
next
  case closes_backend_destination
  with assms(2) show ?thesis
    by (auto simp: conn_inv_def passed_handshake_def closed_by_copiers_def)
next
  case fuse_returns
  with assms(2) show ?thesis
    by (auto simp: conn_inv_def passed_handshake_def closed_by_copiers_def shut_def)
qed (use assms(2) in \<open>auto simp: conn_inv_def passed_handshake_def closed_by_copiers_def shut_def Close_conn_def new_endpoint_def\<close>)

text \<open>A handler comes to an end: every step is progress, and only a finished handler has no step.\<close>

fun copier_left :: "copier \<Rightarrow> nat" where
  "copier_left Copying = 3" | "copier_left ClosingSrc = 2" | "copier_left ClosingDst = 1"
| "copier_left CopyDone = 0"

fun stage_left :: "stage \<Rightarrow> nat" where
  "stage_left Handshaking = 20" | "stage_left Connecting = 19" | "stage_left SendingHeader = 18"
| "stage_left Counting = 17" | "stage_left Registering = 16"
| "stage_left (Fusing a b) = 4 + copier_left a + copier_left b"
| "stage_left Unregistering = 3" | "stage_left Decrementing = 2" | "stage_left ClosingClient = 1"
| "stage_left Finished = 0"

lemma stage_left_step: "conn_step net pp c d c' \<Longrightarrow> stage_left (stage c') < stage_left (stage c)"
  by (erule conn_stepE) simp_all

lemma copiers_can_step:
  assumes "stage c = Fusing a b" and "backend c = Some e"
  shows "\<exists>d c'. conn_step net pp c d c'"
proof (cases a)
  case CopyDone
  then show ?thesis
    using assms by (cases b) (blast intro: conn_step.intros)+
qed (use assms in \<open>blast intro: conn_step.intros\<close>)+

lemma handler_can_step:
  assumes "conn_inv net c" and "stage c \<noteq> Finished"
    and "stage c = SendingHeader \<Longrightarrow> getProxyProtoHeaderFor (RemoteAddr c) (LocalAddr c) = Value h"
  shows "\<exists>d c'. conn_step net pp c d c'"
proof (cases "stage c")
  case Handshaking
  have "forceHandshake (kind (client c)) None (Some (''refused'', False)) None =
    (if kind (client c) = TLSConn then Some ''refused'' else None, 0)"
    by (simp add: forceHandshake_def)
  from conn_step.handshakes [OF Handshaking this] show ?thesis by blast
next
  case (Fusing a b)
  then obtain e where "backend c = Some e"
    using assms(1) by (auto simp: conn_inv_def passed_handshake_def)
  with Fusing show ?thesis by (rule copiers_can_step)
qed (use assms in \<open>blast intro: conn_step.intros\<close>)+


section \<open>Invariants of the proxy\<close>

lemma apply_delta_simps [simp]:
  "quit (apply_delta d p) = quit p" "listener_open (apply_delta d p) = listener_open p"
  "proxyProtocol (apply_delta d p) = proxyProtocol p" "accept_at (apply_delta d p) = accept_at p"
  "shutdowns (apply_delta d p) = shutdowns p" "conns (apply_delta d p) = conns p"
  "handlers (apply_delta d p) = handlers p + d_handlers d"
  "openCounter (apply_delta d p) = openCounter p + d_open d"
  "totalCounter (apply_delta d p) = totalCounter p"
  "successCounter (apply_delta d p) = successCounter p + d_success d"
  "errorCounter (apply_delta d p) = errorCounter p + d_error d"
  "timeoutCounter (apply_delta d p) = timeoutCounter p + d_timeout d"
  "panicked (apply_delta d p) \<longleftrightarrow> panicked p \<or> handlers p + d_handlers d < 0"
  by (simp_all add: apply_delta_def wg_Add_def)

lemma Shutdown_keeps:
  assumes "Shutdown pc p = (pc', p')"
  shows "conns p' = conns p" "openCounter p' = openCounter p" "totalCounter p' = totalCounter p"
    "successCounter p' = successCounter p" "accept_at p' = accept_at p" "proxyProtocol p' = proxyProtocol p"
    "quit p \<Longrightarrow> quit p'" "listener_open p' \<Longrightarrow> listener_open p"
    "errorCounter p' = errorCounter p" "timeoutCounter p' = timeoutCounter p"
  using assms by (cases pc; auto simp: wg_Add_def split: if_splits)+

abbreviation total :: "(conn \<Rightarrow> int) \<Rightarrow> proxy_state \<Rightarrow> int" where
  "total f p \<equiv> sum_list (map f (conns p))"

text \<open>The metrics, for any number of callers of \<open>Shutdown\<close>.\<close>

definition counter_inv :: "peers \<Rightarrow> proxy_state \<Rightarrow> bool" where
  "counter_inv net p \<longleftrightarrow>
     openCounter p = total live p \<and> totalCounter p = int (length (conns p)) \<and>
     0 \<le> successCounter p \<and> successCounter p + total uncounted p \<le> totalCounter p \<and>
     list_all (conn_inv net) (conns p) \<and> (accept_at p = Stopped \<longrightarrow> quit p)"

lemma counter_inv_step:
  assumes "proxy_step net p p'" and "counter_inv net p"
  shows "counter_inv net p'"
  using assms
proof cases
  case (accepts_conn k certs remote local)
  with assms(2) show ?thesis
    by (simp add: counter_inv_def conn_inv_new)
      (simp add: live_def uncounted_def new_conn_def)
next
  case (handler_steps i d c)
  note delta = conn_step_delta [OF handler_steps(4)]
  have "conn_inv net (conns p ! i)"
    using assms(2) handler_steps(3) by (simp add: counter_inv_def list_all_length)
  with handler_steps(4) have "conn_inv net c"
    by (rule conn_inv_step)
  then show ?thesis
    using assms(2) delta handler_steps(1,3)
    by (auto simp: counter_inv_def sum_list_map_update intro!: list_all_update)
next
  case (shutdown_steps i next_call p')
  with assms(2) Shutdown_keeps [OF shutdown_steps(4)] show ?thesis
    by (auto simp: counter_inv_def)
qed (use assms(2) in \<open>simp_all add: counter_inv_def\<close>)

text \<open>
  The wait group, for one caller of \<open>Shutdown\<close>: it counts the fused connections, and one more
  until \<open>Shutdown\<close> has called \<open>Done\<close>.
\<close>

fun shutdown_inv :: "shutdown_call \<Rightarrow> bool \<Rightarrow> bool \<Rightarrow> int \<Rightarrow> bool" where
  "shutdown_inv StoreQuit q l base \<longleftrightarrow> \<not> q \<and> l \<and> base = 1"
| "shutdown_inv CloseListener q l base \<longleftrightarrow> q \<and> l \<and> base = 1"
| "shutdown_inv DoneHandlers q l base \<longleftrightarrow> q \<and> \<not> l \<and> base = 1"
| "shutdown_inv _ q l base \<longleftrightarrow> l = (\<not> q) \<and> base = (if q then 0 else 1)"

definition bad_header :: "proxy_state \<Rightarrow> conn \<Rightarrow> bool" where
  "bad_header p c \<longleftrightarrow> proxyProtocol p \<and> (\<exists>msg. getProxyProtoHeaderFor (RemoteAddr c) (LocalAddr c) = Panic msg)"

definition header_inv :: "proxy_state \<Rightarrow> bool" where
  "header_inv p \<longleftrightarrow> list_all (\<lambda>c. stage c = SendingHeader \<longrightarrow> proxyProtocol p) (conns p)"

definition wait_inv :: "proxy_state \<Rightarrow> bool" where
  "wait_inv p \<longleftrightarrow>
     (\<exists>pc. shutdowns p = [pc] \<and> shutdown_inv pc (quit p) (listener_open p) (handlers p - total holds p)) \<and>
     (panicked p \<longrightarrow> list_ex (bad_header p) (conns p)) \<and> header_inv p"

lemma total_holds_nonneg: "0 \<le> total holds p"
  by (rule sum_list_nonneg) (auto simp: holds_nonneg)

lemma shutdown_inv_base: "shutdown_inv pc q l base \<Longrightarrow> 0 \<le> base"
  by (cases pc) (auto split: if_splits)

lemma wait_inv_handlers: "wait_inv p \<Longrightarrow> 0 \<le> handlers p"
  using shutdown_inv_base total_holds_nonneg [of p] by (fastforce simp: wait_inv_def)

lemma shutdown_inv_step:
  assumes "Shutdown pc p = (pc', p')"
    and "shutdown_inv pc (quit p) (listener_open p) (handlers p - h)" and "0 \<le> h" and "\<not> panicked p"
  shows "shutdown_inv pc' (quit p') (listener_open p') (handlers p' - h) \<and> \<not> panicked p'"
  using assms by (cases pc) (auto simp: wg_Add_def split: if_splits)

lemma conn_step_header:
  "conn_step net pp c d c' \<Longrightarrow> (stage c = SendingHeader \<longrightarrow> pp) \<Longrightarrow> stage c' = SendingHeader \<Longrightarrow> pp"
  by (erule conn_stepE) (auto split: if_splits)

lemma wait_inv_step:
  assumes "proxy_step net p p'" and "wait_inv p"
  shows "wait_inv p'"
  using assms
proof cases
  case (accepts_conn k certs remote local)
  with assms(2) show ?thesis
    by (simp add: wait_inv_def header_inv_def) (simp add: holds_def new_conn_def)
next
  case (handler_steps i d c)
  note delta = conn_step_delta(1) [OF handler_steps(4)]
  have hdr: "stage c = SendingHeader \<longrightarrow> proxyProtocol p"
    using conn_step_header [OF handler_steps(4)] assms(2) handler_steps(3)
    by (auto simp: wait_inv_def header_inv_def list_all_length)
  have inv: "\<exists>pc. shutdowns p' = [pc] \<and> shutdown_inv pc (quit p') (listener_open p') (handlers p' - total holds p')"
    using assms(2) delta handler_steps(1,3) by (auto simp: wait_inv_def sum_list_map_update)
  then have "0 \<le> handlers p'"
    using shutdown_inv_base total_holds_nonneg [of p'] by fastforce
  then have "\<not> panicked p'"
    using handler_steps(1,2) by simp
  with inv hdr assms(2) handler_steps(1) show ?thesis
    by (auto simp: wait_inv_def header_inv_def intro!: list_all_update)
next
  case (handler_panics i msg)
  then have "list_ex (bad_header p) (conns p)"
    using assms(2) by (auto simp: list_ex_length bad_header_def wait_inv_def header_inv_def list_all_length)
  with handler_panics(1) assms(2) show ?thesis
    by (simp add: wait_inv_def header_inv_def) (simp add: bad_header_def list_ex_iff)
next
  case (shutdown_steps i next_call q)
  then obtain pc where pc: "shutdowns p = [pc]" "i = 0"
      "shutdown_inv pc (quit p) (listener_open p) (handlers p - total holds p)"
    using assms(2) by (auto simp: wait_inv_def)
  then have "shutdown_inv next_call (quit q) (listener_open q) (handlers q - total holds p) \<and> \<not> panicked q"
    using shutdown_steps(2,4) total_holds_nonneg by (intro shutdown_inv_step [of pc p]) auto
  with assms(2) pc shutdown_steps(1) Shutdown_keeps [OF shutdown_steps(4)] show ?thesis
    by (simp add: wait_inv_def header_inv_def)
qed (use assms(2) in \<open>simp_all add: wait_inv_def header_inv_def\<close>)

text \<open>The states the program starts the proxy in.\<close>

definition start :: "nat \<Rightarrow> bool \<Rightarrow> proxy_state" where
  "start n pp = (if pp then EnableProxyProtocol (New n) else New n)"

lemma start_invs: "counter_inv net (start n pp)" "wait_inv (start 1 pp)"
  by (cases pp; simp add: start_def EnableProxyProtocol_def New_def counter_inv_def wait_inv_def header_inv_def)+

lemma reachable_counter_inv: "proxy_reachable net (start n pp) p \<Longrightarrow> counter_inv net p"
  by (erule proxies.invariant) (auto intro: start_invs counter_inv_step)

text \<open>
  What the metrics count: a connection with a backend is counted as a success, unless it is still on
  the way there, or its header could not be written; a timeout of a handshake is also an error.
\<close>

definition counted :: "conn \<Rightarrow> int" where
  "counted c = (if backend c \<noteq> None \<and> stage c \<notin> {SendingHeader, Counting} then 1 else 0)"

definition dialing_inv :: "bool \<Rightarrow> conn \<Rightarrow> bool" where
  "dialing_inv pp c \<longleftrightarrow> (stage c \<in> {Handshaking, Connecting} \<longrightarrow> backend c = None) \<and>
     (stage c \<in> {SendingHeader, Counting} \<longrightarrow> backend c \<noteq> None) \<and> (\<not> pp \<longrightarrow> stage c \<noteq> SendingHeader)"

definition success_inv :: "proxy_state \<Rightarrow> bool" where
  "success_inv p \<longleftrightarrow> list_all (dialing_inv (proxyProtocol p)) (conns p) \<and>
     successCounter p \<le> total counted p \<and>
     (\<not> proxyProtocol p \<longrightarrow> successCounter p = total counted p) \<and>
     0 \<le> timeoutCounter p \<and> timeoutCounter p \<le> errorCounter p"

lemma forceHandshake_timeouts:
  "forceHandshake k deadline handshake clear = (err, timeouts) \<Longrightarrow>
   0 \<le> timeouts \<and> timeouts \<le> (if err = None then 0 else 1)"
  by (auto simp: forceHandshake_def Let_def split: if_splits option.splits bool.splits)

lemma conn_step_success:
  assumes "conn_step net pp c d c'" and "dialing_inv pp c"
  shows "dialing_inv pp c' \<and> d_success d + counted c \<le> counted c' \<and> (pp \<or> d_success d + counted c = counted c')"
  using assms by cases (auto simp: dialing_inv_def counted_def no_delta_def)

lemma conn_step_timeouts:
  assumes "conn_step net pp c d c'"
  shows "0 \<le> d_timeout d \<and> d_timeout d \<le> d_error d"
  using assms
proof cases
  case (handshakes deadline handshake clear err timeouts)
  with forceHandshake_timeouts [OF handshakes(4)] show ?thesis by (simp add: no_delta_def)
qed (simp_all add: no_delta_def)

lemma success_inv_step:
  assumes "proxy_step net p p'" and "success_inv p"
  shows "success_inv p'"
  using assms
proof cases
  case (handler_steps i d c)
  have "dialing_inv (proxyProtocol p) (conns p ! i)"
    using assms(2) handler_steps(3) by (simp add: success_inv_def list_all_length)
  from conn_step_success [OF handler_steps(4) this] conn_step_timeouts [OF handler_steps(4)] handler_steps(1,3) assms(2)
  show ?thesis
    by (auto simp: success_inv_def sum_list_map_update intro!: list_all_update)
next
  case (shutdown_steps i pc q)
  with Shutdown_keeps [OF shutdown_steps(4)] assms(2) show ?thesis by (simp add: success_inv_def)
qed (use assms(2) in \<open>auto simp: success_inv_def dialing_inv_def counted_def new_conn_def\<close>)

lemma reachable_success_inv: "proxy_reachable net (start n pp) p \<Longrightarrow> success_inv p"
proof (erule proxies.invariant)
  show "success_inv (start n pp)"
    by (simp add: success_inv_def start_def New_def EnableProxyProtocol_def)
qed (rule success_inv_step)

text \<open>
  Descriptors. The deferred \<open>conn.Close()\<close> releases the one of the client; for the backend the only
  call of \<open>Close\<close> is the default case of the copiers.
\<close>

definition closed_backend :: "bool \<Rightarrow> stage \<Rightarrow> bool" where
  "closed_backend pp st \<longleftrightarrow>
     (case st of Fusing a b \<Rightarrow> a \<in> {ClosingDst, CopyDone} | Unregistering \<Rightarrow> True
      | Decrementing \<Rightarrow> \<not> pp | ClosingClient \<Rightarrow> \<not> pp | Finished \<Rightarrow> \<not> pp | _ \<Rightarrow> False)"

definition descriptor_inv :: "bool \<Rightarrow> conn \<Rightarrow> bool" where
  "descriptor_inv pp c \<longleftrightarrow> dialing_inv pp c \<and> (stage c = Finished \<longrightarrow> descriptor_closed (client c)) \<and>
     (\<forall>e. backend c = Some e \<longrightarrow>
        (if kind e \<in> {TCPConn, UnixConn} then \<not> descriptor_closed e else closed_backend pp (stage c) \<longrightarrow> descriptor_closed e))"

lemma descriptor_inv_step:
  assumes "conn_step net pp c d c'" and "descriptor_inv pp c"
  shows "descriptor_inv pp c'"
  using assms(1)
proof cases
  case (dials k certs)
  with assms(2) show ?thesis
    by (auto simp: descriptor_inv_def dialing_inv_def closed_backend_def new_endpoint_def)
next
  case handshakes
  with assms(2) show ?thesis
    by (auto simp: descriptor_inv_def dialing_inv_def)
qed (use assms(2) in \<open>auto simp: descriptor_inv_def dialing_inv_def closed_backend_def Close_conn_def split: if_splits\<close>)

lemma reachable_descriptor_inv:
  "proxy_reachable net (start n pp) p \<Longrightarrow> list_all (descriptor_inv pp) (conns p) \<and> proxyProtocol p = pp"
proof (erule proxies.invariant)
  fix p p' assume "proxy_step net p p'" and inv: "list_all (descriptor_inv pp) (conns p) \<and> proxyProtocol p = pp"
  then show "list_all (descriptor_inv pp) (conns p') \<and> proxyProtocol p' = pp"
  proof cases
    case (handler_steps i d c)
    then have "descriptor_inv pp c"
      using inv descriptor_inv_step [of net pp "conns p ! i" d c] by (simp add: list_all_length)
    with handler_steps(1) inv show ?thesis by (simp add: list_all_update)
  next
    case (shutdown_steps i pc q)
    with Shutdown_keeps [OF shutdown_steps(4)] inv show ?thesis by simp
  qed (simp_all add: descriptor_inv_def dialing_inv_def new_conn_def closed_backend_def)
qed (simp add: start_def New_def EnableProxyProtocol_def)

lemma reachable_wait_inv: "proxy_reachable net (start 1 pp) p \<Longrightarrow> wait_inv p"
  by (erule proxies.invariant) (auto intro: start_invs wait_inv_step simp del: One_nat_def)

lemma reachable_proxyProtocol:
  assumes "proxy_reachable net s p"
  shows "proxyProtocol p = proxyProtocol s"
proof (rule proxies.invariant [OF assms])
  fix x y assume "proxy_step net x y" and "proxyProtocol x = proxyProtocol s"
  then show "proxyProtocol y = proxyProtocol s"
    by cases (auto dest: Shutdown_keeps(6))
qed simp


section \<open>Shutting down\<close>

lemma closed_step:
  assumes "proxy_step net p p'" and "\<not> listener_open p"
  shows "\<not> listener_open p' \<and> length (conns p') = length (conns p)"
  using assms
proof cases
  case (shutdown_steps i next_call q)
  with Shutdown_keeps [OF shutdown_steps(4)] assms(2) show ?thesis by auto
qed (use assms(2) in simp_all)

lemma quit_step:
  assumes "proxy_step net p p'" and "quit p"
  shows "quit p' \<and> (accept_at p' = Accepting \<longrightarrow> accept_at p = Accepting) \<and>
    (accept_at p = Stopped \<longrightarrow> accept_at p' = Stopped)"
  using assms
proof cases
  case (shutdown_steps i next_call q)
  with Shutdown_keeps [OF shutdown_steps(4)] assms(2) show ?thesis by auto
qed (use assms(2) in simp_all)

lemma closed_forever:
  assumes "proxy_reachable net p p'" and "\<not> listener_open p"
  shows "\<not> listener_open p' \<and> length (conns p') = length (conns p)"
  using assms(1) by (rule proxies.invariant) (use assms(2) in \<open>auto dest: closed_step\<close>)

lemma quit_forever:
  assumes "proxy_reachable net p p'" and "quit p"
  shows "quit p' \<and> (accept_at p' = Accepting \<longrightarrow> accept_at p = Accepting) \<and>
    (accept_at p = Stopped \<longrightarrow> accept_at p' = Stopped)"
  using assms(1)
proof (rule proxies.invariant)
  fix q r assume "proxy_step net q r"
    and "quit q \<and> (accept_at q = Accepting \<longrightarrow> accept_at p = Accepting) \<and> (accept_at p = Stopped \<longrightarrow> accept_at q = Stopped)"
  then show "quit r \<and> (accept_at r = Accepting \<longrightarrow> accept_at p = Accepting) \<and> (accept_at p = Stopped \<longrightarrow> accept_at r = Stopped)"
    using quit_step by blast
qed (use assms(2) in simp)

lemma Wait_returns_iff:
  assumes "wait_inv p"
  shows "Wait_returns p \<longleftrightarrow>
    quit p \<and> \<not> listener_open p \<and> shutdowns p \<noteq> [DoneHandlers] \<and> list_all (\<lambda>c. holds c = 0) (conns p)"
proof -
  obtain pc where pc: "shutdowns p = [pc]" "shutdown_inv pc (quit p) (listener_open p) (handlers p - total holds p)"
    using assms by (auto simp: wait_inv_def)
  have sum: "total holds p = 0 \<longleftrightarrow> list_all (\<lambda>c. holds c = 0) (conns p)"
    by (rule sum_list_indicator_0) (rule holds_nonneg)
  show ?thesis
    using pc total_holds_nonneg [of p]
    by (cases pc) (auto simp: Wait_returns_def simp flip: sum split: if_splits)
qed


section \<open>Sample runs\<close>

definition sample_addr :: net_addr where
  "sample_addr = TCPAddr [CHR 0x7F, CHR 0x00, CHR 0x00, CHR 0x01] 443"

definition sample_conn :: conn where
  "sample_conn = new_conn TLSConn [''cert''] sample_addr sample_addr"

text \<open>Peers that do everything, and peers that refuse every handshake.\<close>

definition any_peers :: peers where
  "any_peers = \<lparr>listener_returns = (\<lambda>k remote local. True), handshake_accepts = (\<lambda>certs. True), dial_returns = (\<lambda>k certs. True)\<rparr>"

definition refused_peers :: peers where
  "refused_peers = any_peers\<lparr>handshake_accepts := (\<lambda>certs. False)\<rparr>"

definition sample_peers :: "peers \<Rightarrow> bool" where
  "sample_peers net \<longleftrightarrow> listener_returns net TLSConn sample_addr sample_addr"

lemma peers_simps [simp]:
  "sample_peers any_peers" "sample_peers refused_peers" "handshake_accepts any_peers certs" "dial_returns any_peers k certs"
  by (simp_all add: sample_peers_def any_peers_def refused_peers_def)

text \<open>An accepted connection, and the same after its handshake.\<close>

definition accepted :: "proxy_state \<Rightarrow> proxy_state" where
  "accepted p = p\<lparr>openCounter := openCounter p + 1, totalCounter := totalCounter p + 1,
     conns := conns p @ [sample_conn]\<rparr>"

definition at_stage :: "stage \<Rightarrow> endpoint option \<Rightarrow> conn" where
  "at_stage st be = sample_conn\<lparr>stage := st, backend := be\<rparr>"

lemma reach_accepted:
  "sample_peers net \<Longrightarrow> \<not> panicked p \<Longrightarrow> accept_at p = Accepting \<Longrightarrow> listener_open p \<Longrightarrow>
   proxy_reachable net s p \<Longrightarrow> proxy_reachable net s (accepted p)"
  unfolding accepted_def sample_conn_def sample_peers_def by (rule reachable_step [OF accepts_conn])

lemma reach_handler:
  "conn_step net (proxyProtocol p) c d c' \<Longrightarrow> conns p = [c] \<Longrightarrow> \<not> panicked p \<Longrightarrow>
   proxy_reachable net s p \<Longrightarrow> proxy_reachable net s (apply_delta d (p\<lparr>conns := [c']\<rparr>))"
  using reachable_step [OF handler_steps [of p 0 net d c']] by simp

lemma reach_shutdown:
  "i < length (shutdowns p) \<Longrightarrow> Shutdown (shutdowns p ! i) p = (pc, p') \<Longrightarrow> \<not> panicked p \<Longrightarrow>
   proxy_reachable net s p \<Longrightarrow> proxy_reachable net s (p'\<lparr>shutdowns := (shutdowns p)[i := pc]\<rparr>)"
  by (rule reachable_step [OF shutdown_steps])

text \<open>A whole call of \<open>Shutdown\<close> by the only caller.\<close>

definition shut_down :: "proxy_state \<Rightarrow> proxy_state" where
  "shut_down p = p\<lparr>quit := True, listener_open := False, handlers := handlers p - 1\<rparr>"

lemma reach_shut_down:
  assumes "proxy_reachable net s p" and "shutdowns p = [Idle]" and "\<not> quit p" and "\<not> panicked p" and "1 \<le> handlers p"
  shows "proxy_reachable net s (shut_down p)"
proof -
  have 1: "proxy_reachable net s (p\<lparr>shutdowns := [LoadQuit]\<rparr>)"
    using reach_shutdown [of 0 p LoadQuit p net s] assms by simp
  have 2: "proxy_reachable net s (p\<lparr>shutdowns := [StoreQuit]\<rparr>)"
    using reach_shutdown [OF _ _ _ 1, of 0 StoreQuit "p\<lparr>shutdowns := [LoadQuit]\<rparr>"] assms by simp
  have 3: "proxy_reachable net s (p\<lparr>quit := True, shutdowns := [CloseListener]\<rparr>)"
    using reach_shutdown [OF _ _ _ 2, of 0 CloseListener "p\<lparr>quit := True, shutdowns := [StoreQuit]\<rparr>"] assms
    by simp
  have 4: "proxy_reachable net s (p\<lparr>quit := True, listener_open := False, shutdowns := [DoneHandlers]\<rparr>)"
    using reach_shutdown [OF _ _ _ 3, of 0 DoneHandlers
        "p\<lparr>quit := True, listener_open := False, shutdowns := [CloseListener]\<rparr>"] assms
    by simp
  have eq: "p\<lparr>quit := True, listener_open := False, handlers := handlers p - 1, panicked := False, shutdowns := [Idle]\<rparr>
      = shut_down p"
    using assms(2,4) by (simp add: shut_down_def)
  show ?thesis
    using reach_shutdown [OF _ _ _ 4, of 0 Idle
        "wg_Add (- 1) (p\<lparr>quit := True, listener_open := False, shutdowns := [DoneHandlers]\<rparr>)"] assms
    unfolding eq [symmetric] by (simp add: wg_Add_def)
qed


lemma start_simps [simp]:
  "quit (start n pp) = False" "listener_open (start n pp) = True" "handlers (start n pp) = 1"
  "accept_at (start n pp) = Accepting" "shutdowns (start n pp) = replicate n Idle" "conns (start n pp) = []"
  "panicked (start n pp) = False" "proxyProtocol (start n pp) = pp" "openCounter (start n pp) = 0"
  "totalCounter (start n pp) = 0"
  by (simp_all add: start_def New_def EnableProxyProtocol_def)

lemma sample_run: "sample_peers net \<Longrightarrow> proxy_reachable net (start n pp) (accepted (start n pp))"
  by (rule reach_accepted) (simp_all add: reachable_start)

lemma handshake_passes_step:
  "handshake_accepts net [''cert''] \<Longrightarrow> conn_step net pp sample_conn no_delta (at_stage Connecting None)"
  using conn_step.handshakes [of sample_conn None None None None 0 net pp]
  by (simp add: sample_conn_def new_conn_def new_endpoint_def forceHandshake_def at_stage_def no_delta_def)

text \<open>A connection that waits for the backend.\<close>

definition connecting :: "nat \<Rightarrow> bool \<Rightarrow> proxy_state" where
  "connecting n pp = apply_delta no_delta ((accepted (start n pp))\<lparr>conns := [at_stage Connecting None]\<rparr>)"

lemma connecting_reachable:
  assumes "sample_peers net" and "handshake_accepts net [''cert'']"
  shows "proxy_reachable net (start n pp) (connecting n pp)"
  unfolding connecting_def using assms
  by (intro reach_handler [OF handshake_passes_step] sample_run) (simp_all add: accepted_def)

lemma connecting_simps [simp]:
  "conns (connecting n pp) = [at_stage Connecting None]" "handlers (connecting n pp) = 1"
  "quit (connecting n pp) = False" "listener_open (connecting n pp) = True" "panicked (connecting n pp) = False"
  "shutdowns (connecting n pp) = replicate n Idle" "proxyProtocol (connecting n pp) = pp"
  by (simp_all add: connecting_def accepted_def no_delta_def)

lemma at_stage_simps [simp]:
  "stage (at_stage st be) = st" "backend (at_stage st be) = be" "peer (at_stage st be) = [''cert'']"
  "client (at_stage st be) = new_endpoint TLSConn" "RemoteAddr (at_stage st be) = sample_addr"
  "LocalAddr (at_stage st be) = sample_addr" "(at_stage st be)\<lparr>stage := st'\<rparr> = at_stage st' be"
  "(at_stage st be)\<lparr>backend := be'\<rparr> = at_stage st be'"
  "(at_stage st be)\<lparr>backend_peer := []\<rparr> = at_stage st be"
  by (simp_all add: at_stage_def sample_conn_def new_conn_def)


section \<open>Properties\<close>

text \<open>
  C4. \<open>Wait\<close>: with one caller of \<open>Shutdown\<close>, whatever the interleaving, \<open>Wait\<close> can return
  exactly in the states in which \<open>Shutdown\<close> has set the flag, closed the listener and called
  \<open>Done\<close>, and no connection is fused. It blocks before \<open>Shutdown\<close> even if no connection was ever
  accepted, and it blocks until the last fused connection has ended.
\<close>

theorem Wait_iff_drained:
  assumes "proxy_reachable net (start 1 pp) p"
  shows "Wait_returns p \<longleftrightarrow>
    quit p \<and> \<not> listener_open p \<and> shutdowns p \<noteq> [DoneHandlers] \<and> list_all (\<lambda>c. holds c = 0) (conns p)"
  by (rule Wait_returns_iff [OF reachable_wait_inv [OF assms]])

theorem Wait_iff_drained_witness: "Wait_returns (shut_down (start 1 False)) \<and> \<not> Wait_returns (start 1 False)"
proof -
  have r: "proxy_reachable any_peers (start 1 False) (shut_down (start 1 False))"
    by (rule reach_shut_down) (simp_all add: reachable_start)
  show ?thesis
    using Wait_iff_drained [OF r] Wait_iff_drained [OF reachable_start, of False]
    by (simp add: shut_down_def)
qed

text \<open>
  Only authenticated clients are forwarded: a TLS connection that has passed its handshake
  and is connected to the backend, or is about to be, belongs to a peer whose certificates
  \<open>crypto/tls\<close> accepted. It holds in every reachable state, for any number of callers of
  \<open>Shutdown\<close>.
\<close>

theorem forwarded_only_if_authenticated:
  assumes "proxy_reachable net (start n pp) p" and "i < length (conns p)"
    and "passed_handshake (stage (conns p ! i))" and "kind (client (conns p ! i)) = TLSConn"
  shows "handshake_accepts net (peer (conns p ! i))"
  using reachable_counter_inv [OF assms(1)] assms(2-4)
  by (auto simp: counter_inv_def list_all_length conn_inv_def)

definition picky_peers :: peers where
  "picky_peers = any_peers\<lparr>handshake_accepts := (\<lambda>certs. certs = [''cert''])\<rparr>"

theorem forwarded_only_if_authenticated_witness:
  "handshake_accepts picky_peers (peer (conns (connecting 1 False) ! 0)) \<and> \<not> handshake_accepts picky_peers []"
proof
  show "handshake_accepts picky_peers (peer (conns (connecting 1 False) ! 0))"
    by (rule forwarded_only_if_authenticated [OF connecting_reachable])
      (simp_all add: passed_handshake_def new_endpoint_def picky_peers_def sample_peers_def any_peers_def)
qed (simp add: picky_peers_def)



text \<open>
  The wait group is used correctly by the program, which calls \<open>Shutdown\<close> from one
  goroutine: its counter never becomes negative, and the only panic a run can reach is the type
  assertion of the proxy protocol header, on a connection whose address is not a TCP address.
\<close>

theorem no_wait_group_panic:
  assumes "proxy_reachable net (start 1 pp) p"
  shows "0 \<le> handlers p \<and> (if panicked p then list_ex (bad_header p) (conns p) else True)"
  using reachable_wait_inv [OF assms] wait_inv_handlers by (auto simp: wait_inv_def)

theorem no_wait_group_panic_witness: "0 \<le> handlers (connecting 1 True)"
  using no_wait_group_panic [OF connecting_reachable [of any_peers 1 True]] by simp

text \<open>
  After the listener is closed no connection is accepted any more, and once the quit flag is
  set the accept loop stops for good: it has stopped, or its next steps lead there and nowhere
  else.
\<close>

theorem shutdown_stops_accepting:
  assumes "quit p" and "\<not> listener_open p" and "proxy_reachable net p p'"
  shows "length (conns p') = length (conns p) \<and>
    (accept_at p' = Stopped \<or> panicked p' \<or>
     accept_at p' = CheckingQuit \<and> proxy_step net p' (p'\<lparr>accept_at := Stopped\<rparr>) \<or>
     accept_at p' = Accepting \<and> accept_at p = Accepting \<and> proxy_step net p' (p'\<lparr>accept_at := CheckingQuit\<rparr>))"
  using closed_forever [OF assms(3,2)] quit_forever [OF assms(3,1)]
  by (cases "accept_at p'") (auto intro: accept_stops accept_fails)

theorem shutdown_stops_accepting_witness:
  "length (conns (shut_down (connecting 1 False))) = 1 \<and> accept_at (shut_down (connecting 1 False)) = Accepting"
  using shutdown_stops_accepting [of "shut_down (connecting 1 False)" any_peers "shut_down (connecting 1 False)"]
  by (simp add: shut_down_def reachable_start) (simp add: connecting_def accepted_def)



text \<open>Runs with one connection: only its handler moves.\<close>

definition runs_to ::
  "peers \<Rightarrow> proxy_state \<Rightarrow> conn \<Rightarrow> int \<Rightarrow> proxy_state \<Rightarrow> bool" where
  "runs_to net s c h p \<longleftrightarrow> proxy_reachable net s p \<and> conns p = [c] \<and> \<not> panicked p \<and> handlers p = h \<and>
     proxyProtocol p = proxyProtocol s"

lemma runs_to_step:
  assumes "conn_step net (proxyProtocol s) c d c'" and "\<exists>p. runs_to net s c h p" and "0 \<le> h + d_handlers d"
  shows "\<exists>p. runs_to net s c' (h + d_handlers d) p"
proof -
  obtain p where p: "runs_to net s c h p" using assms(2) ..
  have "proxy_reachable net s (apply_delta d (p\<lparr>conns := [c']\<rparr>))"
    using p assms(1) by (intro reach_handler) (auto simp: runs_to_def)
  then show ?thesis
    using p assms(3) by (intro exI [of _ "apply_delta d (p\<lparr>conns := [c']\<rparr>)"]) (simp add: runs_to_def)
qed

lemma runs_to_accepted: "sample_peers net \<Longrightarrow> \<exists>p. runs_to net (start n pp) sample_conn 1 p"
  using sample_run [of net n pp]
  by (intro exI [of _ "accepted (start n pp)"]) (simp add: runs_to_def accepted_def)

lemma runs_to_refused:
  assumes "sample_peers net"
  shows "\<exists>p. runs_to net (start n pp) ((at_stage Finished None)\<lparr>client := Close_conn (new_endpoint TLSConn)\<rparr>) 1 p"
proof -
  have "conn_step net (proxyProtocol (start n pp)) sample_conn (no_delta\<lparr>d_error := 1, d_timeout := 0\<rparr>) (at_stage Decrementing None)"
    using conn_step.handshakes [of sample_conn None "Some (''refused'', False)" None "Some ''refused''" 0 net pp]
    by (simp add: sample_conn_def new_conn_def new_endpoint_def forceHandshake_def at_stage_def)
  from runs_to_step [OF this runs_to_accepted [OF assms]]
  have "\<exists>p. runs_to net (start n pp) (at_stage Decrementing None) 1 p"
    by (simp add: no_delta_def)
  from runs_to_step [OF conn_step.decrements this]
  have "\<exists>p. runs_to net (start n pp) (at_stage ClosingClient None) 1 p"
    by (simp add: no_delta_def)
  from runs_to_step [OF conn_step.closes_client this] show ?thesis
    by (simp add: no_delta_def at_stage_def sample_conn_def new_conn_def)
qed



text \<open>
  When the two copiers of a fused connection have ended, both directions of both connections
  are shut, whatever the types of the connections and the order in which the copiers ran.
\<close>

theorem fused_connections_are_shut:
  assumes "proxy_reachable net (start n pp) p" and "i < length (conns p)"
    and "stage (conns p ! i) = Unregistering"
  shows "shut (client (conns p ! i)) \<and> (\<exists>e. backend (conns p ! i) = Some e \<and> shut e)"
  using reachable_counter_inv [OF assms(1)] assms(2,3)
  by (auto simp: counter_inv_def list_all_length conn_inv_def passed_handshake_def)

lemma runs_to_fused:
  assumes "\<exists>p. runs_to net s (at_stage Connecting None) h p" and "\<not> proxyProtocol s" and "0 \<le> h"
    and "dial_returns net TCPConn []"
  shows "\<exists>p. runs_to net s (at_stage (Fusing Copying Copying) (Some (new_endpoint TCPConn))) (h + 1) p"
proof -
  from runs_to_step [OF conn_step.dials [where k = TCPConn and certs = "[]"] assms(1)] assms(2-4)
  have "\<exists>p. runs_to net s (at_stage Counting (Some (new_endpoint TCPConn))) h p"
    by (simp add: no_delta_def)
  from runs_to_step [OF conn_step.counts this] assms(3)
  have "\<exists>p. runs_to net s (at_stage Registering (Some (new_endpoint TCPConn))) h p"
    by (simp add: no_delta_def)
  from runs_to_step [OF conn_step.registers this] assms(3) show ?thesis
    by (simp add: no_delta_def)
qed

lemma runs_to_connecting:
  "sample_peers net \<Longrightarrow> handshake_accepts net [''cert''] \<Longrightarrow> \<exists>p. runs_to net (start n pp) (at_stage Connecting None) 1 p"
  using connecting_reachable [of net n pp] by (intro exI [of _ "connecting n pp"]) (simp add: runs_to_def)

lemma runs_to_unregistering:
  assumes "\<exists>p. runs_to net s (at_stage (Fusing Copying Copying) (Some (new_endpoint TCPConn))) h p" and "0 \<le> h"
  shows "\<exists>p c. runs_to net s c h p \<and> stage c = Unregistering \<and> (\<exists>e. backend c = Some e \<and> kind e = TCPConn \<and> shut e)"
proof -
  have go: "\<exists>p. runs_to net s c' h p"
    if "conn_step net (proxyProtocol s) c no_delta c'" "\<exists>p. runs_to net s c h p" for c c'
    using runs_to_step [OF that] assms(2) by (simp add: no_delta_def)
  note s1 = go [OF conn_step.copied_to_client assms(1), simplified]
  note s2 = go [OF conn_step.closes_backend_source s1, simplified]
  note s3 = go [OF conn_step.closes_client_destination s2, simplified]
  note s4 = go [OF conn_step.copied_to_backend s3, simplified]
  note s5 = go [OF conn_step.closes_client_source s4, simplified]
  note s6 = go [OF conn_step.closes_backend_destination s5, simplified]
  note s7 = go [OF conn_step.fuse_returns s6, simplified]
  show ?thesis using s7 by (fastforce simp: endpoint_defs)
qed

theorem fused_connections_are_shut_witness:
  "\<exists>p c. proxy_reachable any_peers (start 1 False) p \<and> conns p = [c] \<and> stage c = Unregistering \<and> shut (client c)"
proof -
  obtain p c where p: "runs_to any_peers (start 1 False) c 2 p" "stage c = Unregistering"
    using runs_to_unregistering [OF runs_to_fused [OF runs_to_connecting], of any_peers 1 False] by auto
  then have r: "proxy_reachable any_peers (start 1 False) p" "conns p = [c]"
    by (simp_all add: runs_to_def)
  with p(2) have "shut (client c)"
    using fused_connections_are_shut [OF r(1), of 0] by simp
  with r p(2) show ?thesis by blast
qed

text \<open>
  C40. What \<open>Wait\<close> does not wait for: a connection that was accepted before \<open>Shutdown\<close> and has
  passed its handshake is not counted until it is fused. There is a run in which \<open>Wait\<close> can
  return while such a connection is pending, and in which it is forwarded only afterwards.
\<close>

theorem Wait_misses_pending_connections:
  "\<exists>p p'. proxy_reachable any_peers (start 1 False) p \<and> Wait_returns p \<and>
     map stage (conns p) = [Connecting] \<and>
     proxy_reachable any_peers p p' \<and> map stage (conns p') = [Fusing Copying Copying]"
proof -
  let ?p = "shut_down (connecting 1 False)"
  have reach: "proxy_reachable any_peers (start 1 False) ?p"
    by (rule reach_shut_down [OF connecting_reachable]) simp_all
  have "runs_to any_peers ?p (at_stage Connecting None) 0 ?p"
    by (simp add: runs_to_def reachable_start) (simp add: shut_down_def)
  then obtain p' where "runs_to any_peers ?p (at_stage (Fusing Copying Copying) (Some (new_endpoint TCPConn))) 1 p'"
    using runs_to_fused [of any_peers ?p 0] by (auto simp: shut_down_def)
  then show ?thesis
    using reach by (intro exI [of _ ?p] exI [of _ p'])
      (auto simp: runs_to_def Wait_returns_def shut_down_def)
qed

text \<open>
  C29. Which descriptors a handler gives back: that of the client always, when it has finished. That
  of the backend only if it is neither a TCP nor a unix connection: on those the copiers call
  \<open>CloseRead\<close> and \<open>CloseWrite\<close>, and no call of \<open>Close\<close> follows at any stage, so the descriptor of a
  finished connection stays open until the garbage collector finds it. Without the proxy protocol
  all other backends are closed.
\<close>

theorem descriptors_released:
  assumes "proxy_reachable net (start n pp) p" and "i < length (conns p)"
  shows "(stage (conns p ! i) = Finished \<longrightarrow> descriptor_closed (client (conns p ! i))) \<and>
    (\<forall>e. backend (conns p ! i) = Some e \<longrightarrow>
       (if kind e \<in> {TCPConn, UnixConn} then \<not> descriptor_closed e
        else \<not> pp \<and> stage (conns p ! i) \<in> {Unregistering, Decrementing, ClosingClient, Finished} \<longrightarrow> descriptor_closed e))"
  using reachable_descriptor_inv [OF assms(1)] assms(2)
  by (auto simp: list_all_length descriptor_inv_def closed_backend_def)

theorem descriptors_released_witness:
  "\<exists>p c e. proxy_reachable any_peers (start 1 False) p \<and> conns p = [c] \<and> stage c = Finished \<and>
     descriptor_closed (client c) \<and> backend c = Some e \<and> shut e \<and> \<not> descriptor_closed e"
proof -
  obtain c where c: "\<exists>p. runs_to any_peers (start 1 False) c 2 p" "stage c = Unregistering"
      "\<exists>e. backend c = Some e \<and> kind e = TCPConn \<and> shut e"
    using runs_to_unregistering [OF runs_to_fused [OF runs_to_connecting], of any_peers 1 False] by auto
  from runs_to_step [OF conn_step.unregisters [OF c(2)] c(1)]
  have 1: "\<exists>p. runs_to any_peers (start 1 False) (c\<lparr>stage := Decrementing\<rparr>) 1 p"
    by (simp add: no_delta_def)
  from runs_to_step [OF conn_step.decrements 1]
  have 2: "\<exists>p. runs_to any_peers (start 1 False) (c\<lparr>stage := ClosingClient\<rparr>) 1 p"
    by (simp add: no_delta_def)
  from runs_to_step [OF conn_step.closes_client 2] obtain p where
    p: "runs_to any_peers (start 1 False) (c\<lparr>client := Close_conn (client c), stage := Finished\<rparr>) 1 p"
    by (auto simp: no_delta_def)
  with descriptors_released [of any_peers 1 False p 0] c(3) show ?thesis
    by (auto simp: runs_to_def)
qed

text \<open>
  A backend connection is leaked when the proxy protocol header cannot be written: the handler
  then ends with the backend connection open in both directions.
\<close>

theorem header_error_leaks_backend:
  "\<exists>p c e. proxy_reachable any_peers (start 1 True) p \<and> conns p = [c] \<and> stage c = Finished \<and>
     backend c = Some e \<and> can_read e \<and> can_write e"
proof -
  let ?be = "Some (new_endpoint TCPConn)"
  have 0: "\<exists>p. runs_to any_peers (start 1 True) (at_stage Connecting None) 1 p"
    by (rule runs_to_connecting) simp_all
  from runs_to_step [OF conn_step.dials [where k = TCPConn and certs = "[]"] 0]
  have 1: "\<exists>p. runs_to any_peers (start 1 True) (at_stage SendingHeader ?be) 1 p"
    by (simp add: no_delta_def)
  have "\<exists>h. getProxyProtoHeaderFor sample_addr sample_addr = Value h"
    by (simp add: getProxyProtoHeaderFor_def sample_addr_def)
  then obtain h where "getProxyProtoHeaderFor sample_addr sample_addr = Value h" ..
  with runs_to_step [OF conn_step.sends_header 1, of h "Some ''broken pipe''"]
  have 2: "\<exists>p. runs_to any_peers (start 1 True) (at_stage Decrementing ?be) 1 p"
    by (simp add: no_delta_def)
  from runs_to_step [OF conn_step.decrements 2]
  have 3: "\<exists>p. runs_to any_peers (start 1 True) (at_stage ClosingClient ?be) 1 p"
    by (simp add: no_delta_def)
  from runs_to_step [OF conn_step.closes_client 3] show ?thesis
    by (auto simp: no_delta_def runs_to_def at_stage_def new_endpoint_def)
qed

text \<open>The steps of several callers of \<open>Shutdown\<close>, in the order of a schedule.\<close>

fun run_shutdowns :: "nat list \<Rightarrow> proxy_state \<Rightarrow> proxy_state" where
  "run_shutdowns [] p = p"
| "run_shutdowns (i # is) p =
     (case Shutdown (shutdowns p ! i) p of
        (pc, p') \<Rightarrow> run_shutdowns is (p'\<lparr>shutdowns := (shutdowns p)[i := pc]\<rparr>))"

lemma run_shutdowns_reachable:
  assumes "list_all (\<lambda>i. i < length (shutdowns p)) is" and "proxy_reachable net s p"
    and "\<not> panicked (run_shutdowns (butlast is) p)"
  shows "proxy_reachable net s (run_shutdowns is p)"
  using assms
proof (induction "is" rule: rev_induct)
  case (snoc i js)
  have app: "run_shutdowns (xs @ ys) q = run_shutdowns ys (run_shutdowns xs q)" for xs ys q
    by (induction xs arbitrary: q) (simp_all split: prod.splits)
  have len: "length (shutdowns (run_shutdowns xs q)) = length (shutdowns q)" for xs q
    by (induction xs arbitrary: q) (simp_all split: prod.splits)
  have mono: "panicked q \<Longrightarrow> panicked (run_shutdowns xs q)" for xs q
  proof (induction xs arbitrary: q)
    case (Cons j xs)
    obtain pc q' where q': "Shutdown (shutdowns q ! j) q = (pc, q')" by fastforce
    with Cons.prems have "panicked q'"
      by (cases "shutdowns q ! j") (auto simp: wg_Add_def split: if_splits)
    with Cons.IH q' show ?case by simp
  qed simp
  have ok: "\<not> panicked (run_shutdowns js p)"
    using snoc.prems(3) by (simp only: butlast_snoc not_False_eq_True)
  have "\<not> panicked (run_shutdowns (butlast js) p)"
    using ok mono [of "run_shutdowns (butlast js) p" "drop (length js - 1) js"]
    by (cases js rule: rev_cases) (auto simp flip: app)
  with snoc have "proxy_reachable net s (run_shutdowns js p)"
    by simp
  moreover obtain pc q where "Shutdown (shutdowns (run_shutdowns js p) ! i) (run_shutdowns js p) = (pc, q)"
    by fastforce
  ultimately show ?case
    using snoc.prems by (simp add: app) (rule reach_shutdown; simp add: len)
qed simp

text \<open>
  Two goroutines that call \<open>Shutdown\<close> at the same time can crash the process: both may load
  the flag before either stores it, and then both call \<open>Done\<close>, which makes the counter of the
  wait group negative. The check of the flag does not make concurrent calls safe.
\<close>

theorem concurrent_Shutdown_can_panic:
  "\<exists>p. proxy_reachable any_peers (start 2 False) p \<and> panicked p \<and> conns p = []"
proof -
  let ?schedule = "[0, 0, 1, 1, 0, 0, 0, 1, 1, 1]"
  have "proxy_reachable any_peers (start 2 False) (run_shutdowns ?schedule (start 2 False))"
    by (rule run_shutdowns_reachable) (simp_all add: reachable_start wg_Add_def numeral_2_eq_2)
  moreover have "panicked (run_shutdowns ?schedule (start 2 False))" "conns (run_shutdowns ?schedule (start 2 False)) = []"
    by (simp_all add: wg_Add_def numeral_2_eq_2)
  ultimately show ?thesis by blast
qed

end
