(* ===== verification/Fdlimit.thy ===== *)
theory Fdlimit
  imports Flags
begin

text \<open>
  \<open>src/fdlimit\<close>: raising and reading the limit on open files, for the unix and the windows
  build. On unix \<open>int(limit.Cur)\<close> converts an unsigned 64-bit number to a signed one and wraps
  around.
\<close>

definition Raise_unix :: "world \<Rightarrow> 64 word \<Rightarrow> error option" where
  "Raise_unix w limit = (case Setrlimit w (unat limit) (unat limit) of Some err \<Rightarrow> Some err | None \<Rightarrow> None)"

definition Current_unix :: "world \<Rightarrow> int result" where
  "Current_unix w =
     (case Getrlimit w of
        Inl err \<Rightarrow> Inl err
      | Inr (cur, _) \<Rightarrow> Inr (sint (word_of_nat cur :: 64 word)))"

definition Maximum_unix :: "world \<Rightarrow> int result" where
  "Maximum_unix w =
     (case Getrlimit w of
        Inl err \<Rightarrow> Inl err
      | Inr (_, hard) \<Rightarrow> Inr (sint (word_of_nat hard :: 64 word)))"

definition Raise_windows :: "64 word \<Rightarrow> error option" where
  "Raise_windows limit = (if limit > 16384 then Some ''file descriptor limit (16384) reached'' else None)"

definition Current_windows :: "int result" where
  "Current_windows = Inr 16384"

definition Maximum_windows :: "int result" where
  "Maximum_windows = Current_windows"

text \<open>The functions of the build.\<close>

definition Raise :: "build \<Rightarrow> world \<Rightarrow> 64 word \<Rightarrow> error option" where
  "Raise b w limit = (if on_windows b then Raise_windows limit else Raise_unix w limit)"

definition Current :: "build \<Rightarrow> world \<Rightarrow> int result" where
  "Current b w = (if on_windows b then Current_windows else Current_unix w)"

definition Maximum :: "build \<Rightarrow> world \<Rightarrow> int result" where
  "Maximum b w = (if on_windows b then Maximum_windows else Maximum_unix w)"

lemma sint_of_nat_64:
  assumes "n < 2 ^ 64"
  shows "sint (word_of_nat n :: 64 word) = (if n < 2 ^ 63 then int n else int n - 2 ^ 64)"
proof -
  have u: "uint (word_of_nat n :: 64 word) = int n"
    using assms by (simp add: uint_nat unat_of_nat)
  have "bit (int n) 63 \<longleftrightarrow> \<not> n < 2 ^ 63"
  proof (cases "n < 2 ^ 63")
    case False
    have "int n div 2 ^ 63 = 1"
      using False assms by (intro div_pos_geq [THEN trans]) (auto simp: div_pos_pos_trivial)
    with False show ?thesis by (simp add: bit_iff_odd)
  qed (simp add: bit_iff_odd)
  moreover have "take_bit 64 (int n) = int n"
    using assms by (simp add: take_bit_int_eq_self)
  ultimately show ?thesis
    by (simp add: sint_uint u signed_take_bit_eq_take_bit_minus)
qed

text \<open>
  The limits that are reported are the real ones below 2 to the power of 63 and wrap around to
  negative numbers from there on, so an unlimited number of files is reported as -1. Raising the
  limit passes every 64-bit value on unchanged, as current and as maximal limit.
\<close>

theorem limits_wrap:
  assumes "Getrlimit w = Inr (cur, hard)" and "cur < 2 ^ 64" and "hard < 2 ^ 64"
  shows "Current_unix w = Inr (if cur < 2 ^ 63 then int cur else int cur - 2 ^ 64) \<and>
    Maximum_unix w = Inr (if hard < 2 ^ 63 then int hard else int hard - 2 ^ 64) \<and>
    Raise_unix w limit = Setrlimit w (unat limit) (unat limit) \<and> unat limit < 2 ^ 64"
  using assms unsigned_less [where ?'a = nat, of limit]
  by (simp add: Current_unix_def Maximum_unix_def Raise_unix_def sint_of_nat_64 split: option.split)

definition unlimited_world :: world where
  "unlimited_world = sample_world\<lparr>Getrlimit := Inr (1024, 2 ^ 64 - 1)\<rparr>"

theorem limits_wrap_witness: "Current_unix unlimited_world = Inr 1024 \<and> Maximum_unix unlimited_world = Inr (- 1)"
  using limits_wrap [of unlimited_world 1024 "2 ^ 64 - 1"] by (simp add: unlimited_world_def)

end
