(* ===== verification/Ghostunnel.thy ===== *)
theory Ghostunnel
  imports Signals Proxy Fdlimit
begin

text \<open>
  \<open>src/main.go\<close>: from the flags to a running proxy.

  \<open>run\<close> prepares everything and then blocks in \<open>serverListen\<close> or \<open>clientListen\<close>. The model of
  the preparation is a function of the build, the world at start-up and the flags. Its result
  \<open>Serving\<close> is the state in which the listeners are open and the goroutines are started: the
  TLS configuration of the listener, the state of the proxy (to which the step relation of the
  theory \<open>Proxy\<close> applies), the context (to which the signal handler applies) and the backend.
\<close>


section \<open>Backends\<close>

datatype backend = PlainBackend string string int | TLSBackend mtlsDialer string string

definition serverBackendDialer :: "world \<Rightarrow> flags \<Rightarrow> backend result" where
  "serverBackendDialer w f =
     (case parseUnixOrTCPAddress w (serverForwardAddress f) of
        Inl err \<Rightarrow> Inl err
      | Inr (backendNet, backendAddr, _) \<Rightarrow> Inr (PlainBackend backendNet backendAddr (timeoutDuration f)))"

definition clientACL :: "flags \<Rightarrow> regexpMatcher list \<Rightarrow> ACL" where
  "clientACL f allowedURIs =
     \<lparr>AllowAll = False, AllowedCNs = clientAllowedCNs f, AllowedOUs = clientAllowedOUs f,
      AllowedDNSs = clientAllowedDNSs f, AllowedIPs = clientAllowedIPs f, AllowedURIs = allowedURIs\<rparr>"

definition clientBackendDialer ::
  "world \<Rightarrow> flags \<Rightarrow> Certificate option \<Rightarrow> string \<Rightarrow> string \<Rightarrow> string \<Rightarrow> backend result" where
  "clientBackendDialer w f certificate network address host =
     (case buildConfig w (enabledCipherSuites f) (caBundlePath f) of
        Inl err \<Rightarrow> Inl err
      | Inr config \<Rightarrow>
          (let config = (if clientServerName f = [] then config\<lparr>ServerName := host\<rparr>
                         else config\<lparr>ServerName := clientServerName f\<rparr>) in
           case CompileList (clientAllowedURIs f) of
             Inl err \<Rightarrow> Inl err
           | Inr allowedURIs \<Rightarrow>
               (let config = config\<lparr>config_VerifyPeerCertificate :=
                      Some (VerifyPeerCertificateClient (clientACL f allowedURIs))\<rparr> in
                case clientConnectProxy f of
                  None \<Rightarrow>
                    Inr (TLSBackend (DialerWithCertificate certificate config (timeoutDuration f)
                      (NetDialer (timeoutDuration f))) network address)
                | Some url \<Rightarrow>
                    (case buildConfig w (enabledCipherSuites f) (caBundlePath f) of
                       Inl err \<Rightarrow> Inl err
                     | Inr proxyConfig \<Rightarrow>
                         (let config = config\<lparr>ClientAuth := NoClientCert\<rparr> in
                          Inr (TLSBackend (DialerWithCertificate certificate config (timeoutDuration f)
                            (HttpTunnel url (timeoutDuration f) proxyConfig)) network address))))))"


section \<open>The status listener\<close>

datatype route = StatusRoute | MetricsRoute | PprofIndex | PprofCmdline | PprofProfile | PprofSymbol | PprofTrace

definition status_mux :: "flags \<Rightarrow> (string \<times> route) list" where
  "status_mux f =
     [(''/_status'', StatusRoute), (''/_metrics'', MetricsRoute)] @
     (if enableProf f
      then [(''/debug/pprof/'', PprofIndex), (''/debug/pprof/cmdline'', PprofCmdline),
            (''/debug/pprof/profile'', PprofProfile), (''/debug/pprof/symbol'', PprofSymbol),
            (''/debug/pprof/trace'', PprofTrace)]
      else [])"

text \<open>
  \<open>http.ServeMux\<close> for a path in canonical form (it redirects others): the pattern that is equal
  to the path, or else the longest pattern that ends in a slash and is a prefix of the path.
\<close>

fun longest_prefix :: "(string \<times> route) list \<Rightarrow> string \<Rightarrow> (string \<times> route) option \<Rightarrow> (string \<times> route) option" where
  "longest_prefix [] path best = best"
| "longest_prefix ((pat, r) # es) path best =
     longest_prefix es path
       (if last pat = CHR ''/'' \<and> HasPrefix path pat \<and>
           (case best of None \<Rightarrow> True | Some (p, _) \<Rightarrow> length p < length pat)
        then Some (pat, r) else best)"

definition mux_handler :: "(string \<times> route) list \<Rightarrow> string \<Rightarrow> route option" where
  "mux_handler es path =
     (case map_of es path of
        Some r \<Rightarrow> Some r
      | None \<Rightarrow> map_option snd (longest_prefix es path None))"

datatype metrics_format = SquareMetrics | Prometheus

text \<open>The values of the query parameter \<open>format\<close>: \<open>None\<close> if it is missing.\<close>

definition metrics_handler :: "string list option \<Rightarrow> metrics_format outcome" where
  "metrics_handler format =
     (case format of
        None \<Rightarrow> Value SquareMetrics
      | Some [] \<Rightarrow> Panic ''index out of range''
      | Some (v # _) \<Rightarrow> if v \<noteq> ''prometheus'' then Value SquareMetrics else Value Prometheus)"

record status_server =
  status_network :: string
  status_address :: string
  status_tls :: "tls_Config option"
  status_routes :: "(string \<times> route) list"

text \<open>
  If a unix socket cannot be opened, the listener is a nil interface and the type assertion that
  comes before the check of the error panics.
\<close>

definition serveStatus :: "world \<Rightarrow> flags \<Rightarrow> Context \<Rightarrow> (Context \<times> status_server) outcome" where
  "serveStatus w f ctx =
     (case buildConfig w (enabledCipherSuites f) (caBundlePath f) of
        Inl err \<Rightarrow> Failure err
      | Inr config \<Rightarrow>
          (let config = config\<lparr>ClientAuth := NoClientCert\<rparr>;
               config = (if cert ctx \<noteq> None then config\<lparr>config_GetCertificate := Some GetCertificate\<rparr>
                         else config) in
           case parseUnixOrTCPAddress w (statusAddress f) of
             Inl err \<Rightarrow> Failure err
           | Inr (network, address, _) \<Rightarrow>
               (case listen_error w network address of
                  Some err \<Rightarrow>
                    if network = ''unix'' then Panic ''interface conversion: net.Listener is nil''
                    else Failure err
                | None \<Rightarrow>
                    Value (ctx\<lparr>statusHTTP := True\<rparr>,
                      \<lparr>status_network = network, status_address = address,
                       status_tls = (if network \<noteq> ''unix'' then Some config else None),
                       status_routes = status_mux f\<rparr>))))"

definition serveStatus_if_set ::
  "world \<Rightarrow> flags \<Rightarrow> Context \<Rightarrow> (Context \<times> status_server option) outcome" where
  "serveStatus_if_set w f ctx =
     (if statusAddress f \<noteq> [] then map_outcome (\<lambda>(ctx, s). (ctx, Some s)) (serveStatus w f ctx)
      else Value (ctx, None))"


section \<open>The listeners\<close>

record started =
  listen_network :: string
  listen_address :: string
  listen_tls :: "tls_Config option"
  unlink_on_close :: bool
  started_proxy :: proxy_state
  started_status :: "status_server option"
  started_context :: Context

definition serverACL :: "flags \<Rightarrow> regexpMatcher list \<Rightarrow> ACL" where
  "serverACL f allowedURIs =
     \<lparr>AllowAll = serverAllowAll f, AllowedCNs = serverAllowedCNs f, AllowedOUs = serverAllowedOUs f,
      AllowedDNSs = serverAllowedDNSs f, AllowedIPs = serverAllowedIPs f, AllowedURIs = allowedURIs\<rparr>"

definition serverListen :: "world \<Rightarrow> flags \<Rightarrow> Context \<Rightarrow> started outcome" where
  "serverListen w f ctx =
     (case buildConfig w (enabledCipherSuites f) (caBundlePath f) of
        Inl err \<Rightarrow> Failure err
      | Inr config \<Rightarrow>
          (case CompileList (serverAllowedURIs f) of
             Inl err \<Rightarrow> Failure err
           | Inr allowedURIs \<Rightarrow>
               (if cert ctx = None then Panic nil_dereference
                else let
                  config = config\<lparr>config_GetCertificate := Some GetCertificate\<rparr>;
                  config = config\<lparr>config_VerifyPeerCertificate :=
                    Some (VerifyPeerCertificateServer (serverACL f allowedURIs))\<rparr>;
                  config = (if serverDisableAuth f then config\<lparr>ClientAuth := NoClientCert\<rparr> else config)
                in case listen_error w ''tcp'' (serverListenAddress f) of
                  Some err \<Rightarrow> Failure err
                | None \<Rightarrow>
                    (let p = New 1;
                         p = (if serverProxyProtocol f then EnableProxyProtocol p else p) in
                     map_outcome (\<lambda>(ctx, stat).
                       \<lparr>listen_network = ''tcp'', listen_address = serverListenAddress f,
                        listen_tls = Some config, unlink_on_close = False, started_proxy = p,
                        started_status = stat,
                        started_context = ctx\<lparr>status := Listening (status ctx)\<rparr>\<rparr>)
                       (serveStatus_if_set w f ctx)))))"

definition clientListen :: "world \<Rightarrow> flags \<Rightarrow> Context \<Rightarrow> started outcome" where
  "clientListen w f ctx =
     (case parseUnixOrTCPAddress w (clientListenAddress f) of
        Inl err \<Rightarrow> Failure err
      | Inr (network, address, _) \<Rightarrow>
          (case listen_error w network address of
             Some err \<Rightarrow> Failure err
           | None \<Rightarrow>
               map_outcome (\<lambda>(ctx, stat).
                 \<lparr>listen_network = network, listen_address = address, listen_tls = None,
                  unlink_on_close = (network = ''unix''), started_proxy = New 1, started_status = stat,
                  started_context = ctx\<lparr>status := Listening (status ctx)\<rparr>\<rparr>)
                 (serveStatus_if_set w f ctx)))"


section \<open>run and main\<close>

datatype command = ServerCommand | ClientCommand | UnknownCommand

datatype run_result = ExitProcess nat | RunError error | RunPanic string | Serving started backend

definition initLogger :: "world \<Rightarrow> bool \<Rightarrow> error option" where
  "initLogger w syslog = (if syslog then syslog_error w else None)"

definition new_context :: "flags \<Rightarrow> Certificate option \<Rightarrow> Context" where
  "new_context f certificate =
     \<lparr>status = newStatusHandler, statusHTTP = False, context_shutdownTimeout = shutdownTimeout f,
      cert = certificate\<rparr>"

fun listen_result :: "started outcome \<Rightarrow> backend \<Rightarrow> run_result" where
  "listen_result (Value st) be = Serving st be"
| "listen_result (Failure err) be = RunError err"
| "listen_result (Panic p) be = RunPanic p"

definition run_server :: "world \<Rightarrow> flags \<Rightarrow> Certificate option \<Rightarrow> run_result" where
  "run_server w f certificate =
     (case serverValidateFlags f of
        Some err \<Rightarrow> RunError err
      | None \<Rightarrow>
          (case serverBackendDialer w f of
             Inl err \<Rightarrow> RunError err
           | Inr dial \<Rightarrow> listen_result (serverListen w f (new_context f certificate)) dial))"

definition run_client :: "world \<Rightarrow> flags \<Rightarrow> Certificate option \<Rightarrow> run_result" where
  "run_client w f certificate =
     (case clientValidateFlags f of
        Some err \<Rightarrow> RunError err
      | None \<Rightarrow>
          (case parseUnixOrTCPAddress w (clientForwardAddress f) of
             Inl err \<Rightarrow> RunError err
           | Inr (network, address, host) \<Rightarrow>
               (case clientBackendDialer w f certificate network address host of
                  Inl err \<Rightarrow> RunError err
                | Inr dial \<Rightarrow> listen_result (clientListen w f (new_context f certificate)) dial)))"

definition run :: "build \<Rightarrow> world \<Rightarrow> flags \<Rightarrow> command \<Rightarrow> run_result" where
  "run b w parsed command =
     (let f = init_flags b parsed in
      if validateFlags f \<noteq> None then ExitProcess 1
      else if initLogger w (useSyslog b f) \<noteq> None then ExitProcess 1
      else case (if fdLimit f > 0 then Raise b w (fdLimit f) else None) of
        Some err \<Rightarrow> RunError err
      | None \<Rightarrow>
          (case caBundle w (caBundlePath f) of
             Inl err \<Rightarrow> RunError err
           | Inr ca \<Rightarrow>
               (case buildCertificate b w f (keystorePath f) (keystorePass f) of
                  Failure err \<Rightarrow> RunError err
                | Panic p \<Rightarrow> RunPanic p
                | Value certificate \<Rightarrow>
                    (case command of
                       ServerCommand \<Rightarrow> run_server w f certificate
                     | ClientCommand \<Rightarrow> run_client w f certificate
                     | UnknownCommand \<Rightarrow> RunError ''unknown command''))))"

text \<open>
  The exit status of the process, for the result of \<open>run\<close>; the last case is a proxy that was
  shut down and drained, after which \<open>run\<close> returns nil. A Go program that panics exits with 2.
\<close>

fun main_exit :: "run_result \<Rightarrow> nat" where
  "main_exit (ExitProcess n) = n"
| "main_exit (RunError err) = 1"
| "main_exit (RunPanic p) = 2"
| "main_exit (Serving st be) = 0"


section \<open>What run builds\<close>

lemma init_flags_keeps [simp]:
  "serverUnsafeTarget (init_flags b f) = serverUnsafeTarget f"
  "serverForwardAddress (init_flags b f) = serverForwardAddress f"
  "clientUnsafeListen (init_flags b f) = clientUnsafeListen f"
  "clientListenAddress (init_flags b f) = clientListenAddress f"
  "clientForwardAddress (init_flags b f) = clientForwardAddress f"
  "clientServerName (init_flags b f) = clientServerName f"
  "clientAllowedURIs (init_flags b f) = clientAllowedURIs f"
  "clientDisableAuth (init_flags b f) = clientDisableAuth f"
  "keystorePath (init_flags b f) = keystorePath f" "keystorePass (init_flags b f) = keystorePass f"
  "statusAddress (init_flags b f) = statusAddress f" "serverListenAddress (init_flags b f) = serverListenAddress f"
  "serverAllowedURIs (init_flags b f) = serverAllowedURIs f" "caBundlePath (init_flags b f) = caBundlePath f"
  "enabledCipherSuites (init_flags b f) = enabledCipherSuites f"
  "clientACL (init_flags b f) = clientACL f" "serverACL (init_flags b f) = serverACL f"
  by (simp_all add: init_flags_def Let_def fun_eq_iff clientACL_def serverACL_def)

lemma listen_result_Serving: "listen_result r dial = Serving st be \<longleftrightarrow> r = Value st \<and> dial = be"
  by (cases r) auto

lemma listen_result_RunPanic: "listen_result r dial = RunPanic p \<longleftrightarrow> r = Panic p"
  by (cases r) auto

lemma serveStatus_keeps:
  "serveStatus_if_set w f ctx = Value (ctx', s) \<Longrightarrow> cert ctx' = cert ctx \<and> status ctx' = status ctx"
  by (auto simp: serveStatus_if_set_def serveStatus_def Let_def split: sum.splits option.splits if_splits)

lemma serverListen_Value:
  assumes "serverListen w f ctx = Value st"
  obtains config uris where "buildConfig w (enabledCipherSuites f) (caBundlePath f) = Inr config"
    "CompileList (serverAllowedURIs f) = Inr uris" "cert ctx \<noteq> None" "cert (started_context st) = cert ctx"
    "listen_tls st = Some (config\<lparr>config_GetCertificate := Some GetCertificate,
       config_VerifyPeerCertificate := Some (VerifyPeerCertificateServer (serverACL f uris))\<rparr>)"
    "started_proxy st = start 1 (serverProxyProtocol f)"
    "listening (status (started_context st))"
proof -
  from assms obtain config uris where c: "buildConfig w (enabledCipherSuites f) (caBundlePath f) = Inr config"
    "CompileList (serverAllowedURIs f) = Inr uris"
    by (auto simp: serverListen_def split: sum.splits)
  have "config\<lparr>config_GetCertificate := g, config_VerifyPeerCertificate := v, ClientAuth := NoClientCert\<rparr> =
      config\<lparr>config_GetCertificate := g, config_VerifyPeerCertificate := v\<rparr>" for g v
    using buildConfig_fields(1) [OF c(1)] by (cases config) simp
  then show ?thesis
    using assms c that [OF c]
    by (auto simp: serverListen_def Let_def start_def Listening_def split: option.splits if_splits
        dest!: serveStatus_keeps)
qed

lemma clientListen_Value:
  assumes "clientListen w f ctx = Value st"
  obtains host where "parseUnixOrTCPAddress w (clientListenAddress f) = Inr (listen_network st, listen_address st, host)"
    "cert (started_context st) = cert ctx" "listen_tls st = None" "started_proxy st = start 1 False"
  using assms
  by (auto simp: clientListen_def start_def split: sum.splits option.splits dest!: serveStatus_keeps)

lemma run_server_Serving:
  assumes "run_server w f certificate = Serving st be"
  obtains "serverValidateFlags f = None" "serverBackendDialer w f = Inr be"
    "serverListen w f (new_context f certificate) = Value st"
  using assms
  by (auto simp: run_server_def listen_result_Serving split: option.splits sum.splits)

lemma run_client_Serving:
  assumes "run_client w f certificate = Serving st be"
  obtains network address host where "clientValidateFlags f = None"
    "parseUnixOrTCPAddress w (clientForwardAddress f) = Inr (network, address, host)"
    "clientBackendDialer w f certificate network address host = Inr be"
    "clientListen w f (new_context f certificate) = Value st"
  using assms
  by (auto simp: run_client_def listen_result_Serving split: option.splits sum.splits)

lemma run_Serving:
  assumes "run b w f command = Serving st be"
  obtains certificate where
    "buildCertificate b w (init_flags b f) (keystorePath f) (keystorePass f) = Value certificate"
    "command = ServerCommand \<and> run_server w (init_flags b f) certificate = Serving st be \<or>
     command = ClientCommand \<and> run_client w (init_flags b f) certificate = Serving st be"
  using assms
  by (auto simp: run_def Let_def split: if_splits option.splits sum.splits outcome.splits command.splits)

lemma clientBackendDialer_Inr:
  assumes "clientBackendDialer w f certificate network address host = Inr be"
  obtains d uris where "be = TLSBackend d network address" "CompileList (clientAllowedURIs f) = Inr uris"
    "ServerName (dialer_config d) = (if clientServerName f = [] then host else clientServerName f)"
    "config_VerifyPeerCertificate (dialer_config d) = Some (VerifyPeerCertificateClient (clientACL f uris))"
    "config_GetClientCertificate (dialer_config d) = (if certificate = None then None else Some GetClientCertificate)"
    "caBundle w (caBundlePath f) = Inr (RootCAs (dialer_config d))"
proof -
  from assms obtain config uris where c: "buildConfig w (enabledCipherSuites f) (caBundlePath f) = Inr config"
    "CompileList (clientAllowedURIs f) = Inr uris"
    by (auto simp: clientBackendDialer_def Let_def split: sum.splits)
  then show ?thesis
    using assms that [OF _ c(2)] buildConfig_fields(4,7) [OF c(1)]
    by (auto simp: clientBackendDialer_def Let_def DialerWithCertificate_def split: option.splits)
qed


section \<open>What the status port serves\<close>

text \<open>
  The status port serves the status and the metrics at their exact paths, and the profiler under
  \<open>/debug/pprof/\<close> only if it was enabled; every other path has no handler.
\<close>

theorem status_mux_routes:
  "mux_handler (status_mux f) path =
     (if path = ''/_status'' then Some StatusRoute
      else if path = ''/_metrics'' then Some MetricsRoute
      else if \<not> enableProf f \<or> \<not> HasPrefix path ''/debug/pprof/'' then None
      else if path = ''/debug/pprof/cmdline'' then Some PprofCmdline
      else if path = ''/debug/pprof/profile'' then Some PprofProfile
      else if path = ''/debug/pprof/symbol'' then Some PprofSymbol
      else if path = ''/debug/pprof/trace'' then Some PprofTrace
      else Some PprofIndex)"
proof -
  have prefix: "longest_prefix (status_mux f) path None =
      (if enableProf f \<and> HasPrefix path ''/debug/pprof/'' then Some (''/debug/pprof/'', PprofIndex) else None)"
    by (simp add: status_mux_def)
  have inside: "HasPrefix ''/debug/pprof/'' ''/debug/pprof/''" "HasPrefix ''/debug/pprof/cmdline'' ''/debug/pprof/''"
    "HasPrefix ''/debug/pprof/profile'' ''/debug/pprof/''" "HasPrefix ''/debug/pprof/symbol'' ''/debug/pprof/''"
    "HasPrefix ''/debug/pprof/trace'' ''/debug/pprof/''"
    by (simp_all add: HasPrefix_def)
  show ?thesis
    unfolding mux_handler_def prefix by (auto simp: status_mux_def inside)
qed

end
