(* ===== verification/Samples.thy ===== *)
theory Samples
  imports Ghostunnel
begin

text \<open>
  A server and a client that start: flags, worlds and builds at which the properties of \<open>run\<close> and
  of the running process are exercised.
\<close>


section \<open>A server\<close>

definition sample_serving :: run_result where
  "sample_serving = run sample_build sample_world sample_server ServerCommand"

text \<open>The same flags with a status address, in worlds that differ in which sockets can be opened.\<close>

definition status_server_flags :: "string \<Rightarrow> flags" where
  "status_server_flags a = init_flags sample_build (sample_server\<lparr>statusAddress := a\<rparr>)"

definition socket_world :: "(string \<Rightarrow> string \<Rightarrow> error option) \<Rightarrow> world" where
  "socket_world l = sample_world\<lparr>listen_error := l\<rparr>"

lemma socket_world_simps:
  "CertificateFromKeystore (socket_world l) path pass = CertificateFromKeystore sample_world path pass"
  "caBundle (socket_world l) path = caBundle sample_world path"
  "buildConfig (socket_world l) names path = buildConfig sample_world names path"
  "parseUnixOrTCPAddress (socket_world l) a = parseUnixOrTCPAddress sample_world a"
  "listen_error (socket_world l) = l"
proof -
  have [simp]: "os_Open (socket_world l) = os_Open sample_world" "ReadFile (socket_world l) = ReadFile sample_world"
    "SystemCertPool (socket_world l) = SystemCertPool sample_world"
    "AppendCertsFromPEM (socket_world l) = AppendCertsFromPEM sample_world"
    "EncodeToMemory (socket_world l) = EncodeToMemory sample_world"
    "X509KeyPair (socket_world l) = X509KeyPair sample_world"
    "ParseCertificate (socket_world l) = ParseCertificate sample_world"
    "ReadAsPEMFromFiles (socket_world l) = ReadAsPEMFromFiles sample_world"
    "ResolveTCPAddr (socket_world l) = ResolveTCPAddr sample_world"
    by (simp_all add: socket_world_def)
  have pem: "readPEM (socket_world l) path p q = readPEM sample_world path p q" for path p q
    by (simp add: readPEM_def split: option.split prod.split)
  have blocks: "keystore_blocks (socket_world l) p q r acc = keystore_blocks sample_world p q r acc" for p q r acc
    by (induction r arbitrary: acc) (simp_all add: pem split: sum.split)
  have "keystore_Reload (socket_world l) k = keystore_Reload sample_world k" for k
    unfolding keystore_Reload_def blocks keystore_bytes_eq Let_def by (simp split: sum.split list.split)
  then show "CertificateFromKeystore (socket_world l) path pass = CertificateFromKeystore sample_world path pass"
    by (simp add: CertificateFromKeystore_def)
  show ca: "caBundle (socket_world l) path = caBundle sample_world path" for path
    by (simp add: caBundle_def split: sum.split)
  show "buildConfig (socket_world l) names path = buildConfig sample_world names path"
    by (simp add: buildConfig_def ca)
  show "parseUnixOrTCPAddress (socket_world l) a = parseUnixOrTCPAddress sample_world a"
    by (simp add: parseUnixOrTCPAddress_def split: sum.split)
  show "listen_error (socket_world l) = l"
    by (simp add: socket_world_def)
qed

lemma sample_parses:
  "parseUnixOrTCPAddress sample_world ''localhost:8080'' = Inr (''tcp'', ''localhost:8080'', ''localhost'')"
  "parseUnixOrTCPAddress sample_world ''example.com:443'' = Inr (''tcp'', ''example.com:443'', ''example.com'')"
proof -
  have "SplitHostPort ''localhost:8080'' = Inr (''localhost'', ''8080'')"
    "SplitHostPort ''example.com:443'' = Inr (''example.com'', ''443'')"
    unfolding SplitHostPort_iff by (simp_all add: host_port_def)
  then show "parseUnixOrTCPAddress sample_world ''localhost:8080'' = Inr (''tcp'', ''localhost:8080'', ''localhost'')"
    "parseUnixOrTCPAddress sample_world ''example.com:443'' = Inr (''tcp'', ''example.com:443'', ''example.com'')"
    by (simp_all add: parseUnixOrTCPAddress_def HasPrefix_def sample_worlds)
qed

lemma status_server_flags_simps:
  "keystorePath (status_server_flags a) = ''server.p12''" "caBundlePath (status_server_flags a) = ''ca.pem''"
  "enabledCipherSuites (status_server_flags a) = ''AES,CHACHA''" "statusAddress (status_server_flags a) = a"
  "serverForwardAddress (status_server_flags a) = ''localhost:8080''" "serverAllowedURIs (status_server_flags a) = []"
  "\<not> hasPKCS11 (status_server_flags a)" "\<not> hasKeychainIdentity (status_server_flags a)"
  "validateFlags (status_server_flags a) = None" "fdLimit (status_server_flags a) = 0"
  "syslogFlag (status_server_flags a) = False" "serverValidateFlags (status_server_flags a) = None"
  by (simp_all add: status_server_flags_def init_flags_def sample_build_def SupportsKeychain_def SupportsPKCS11_def
      registered_def sample_server_def default_flags_def hasPKCS11_def hasKeychainIdentity_def validateFlags_def
      second_def serverValidateFlags_def hasAccessFlags_def validateUnixOrLocalhost_def HasPrefix_def Split_char
      TrimSpace_groups cipherSuites_def)

lemma sample_server_run:
  "\<exists>certificate be. run sample_build (socket_world l) (sample_server\<lparr>statusAddress := a\<rparr>) ServerCommand =
     listen_result (serverListen (socket_world l) (status_server_flags a)
       (new_context (status_server_flags a) (Some certificate))) be"
proof -
  obtain c where c: "CertificateFromKeystore sample_world ''server.p12'' (keystorePass (status_server_flags a)) = Value c"
    using sample_keystore by blast
  have "caBundle sample_world ''ca.pem'' = Inr [''bundle'']"
    by (simp add: caBundle_def sample_worlds)
  then show ?thesis
    using c unfolding run_def Let_def status_server_flags_def [symmetric]
    by (simp add: status_server_flags_simps socket_world_simps initLogger_def useSyslog_def buildCertificate_def
        run_server_def serverBackendDialer_def sample_parses) blast
qed

lemma sample_serving_runs: "\<exists>st be. sample_serving = Serving st be"
proof -
  have eq: "socket_world (\<lambda>network addr. None) = sample_world" "sample_server\<lparr>statusAddress := []\<rparr> = sample_server"
    by (simp_all add: socket_world_def sample_world_def sample_server_def default_flags_def)
  obtain config where "buildConfig sample_world ''AES,CHACHA'' ''ca.pem'' = Inr config"
    using sample_buildConfig by blast
  moreover have "listen_error sample_world n a = None" for n a
    by (simp add: sample_world_def)
  ultimately show ?thesis
    using sample_server_run [of "\<lambda>network addr. None" "[]"] unfolding eq sample_serving_def
    by (auto simp: status_server_flags_simps serverListen_def CompileList_def new_context_def
        serveStatus_if_set_def Let_def)
qed


section \<open>A client\<close>

definition sample_client :: flags where
  "sample_client = default_flags\<lparr>clientListenAddress := ''localhost:8080'', clientForwardAddress := ''example.com:443'',
     keystorePath := ''server.p12'', caBundlePath := ''ca.pem''\<rparr>"

lemma sample_client_init: "init_flags sample_build sample_client = sample_client\<lparr>pkcs11Module := Some [],
    pkcs11TokenLabel := Some [], pkcs11PIN := Some []\<rparr>"
  by (simp add: init_flags_def sample_build_def sample_client_def default_flags_def SupportsKeychain_def
      SupportsPKCS11_def registered_def)

lemma sample_client_runs:
  "\<exists>st d. run sample_build sample_world sample_client ClientCommand = Serving st (TLSBackend d ''tcp'' ''example.com:443'')"
proof -
  let ?f = "init_flags sample_build sample_client"
  obtain c where c: "CertificateFromKeystore sample_world ''server.p12'' (keystorePass ?f) = Value c"
    using sample_keystore by blast
  have fields: "keystorePath sample_client = ''server.p12''" "caBundlePath sample_client = ''ca.pem''"
    "enabledCipherSuites sample_client = ''AES,CHACHA''" "statusAddress sample_client = []"
    "clientForwardAddress sample_client = ''example.com:443''" "clientListenAddress sample_client = ''localhost:8080''"
    "clientAllowedURIs sample_client = []" "clientServerName sample_client = []"
    by (simp_all add: sample_client_def default_flags_def)
  have flags: "\<not> hasPKCS11 ?f" "\<not> hasKeychainIdentity ?f" "validateFlags ?f = None" "fdLimit ?f = 0"
    "syslogFlag ?f = False" "clientConnectProxy ?f = None"
    unfolding sample_client_init by (simp_all add: sample_client_def default_flags_def hasPKCS11_def
        hasKeychainIdentity_def validateFlags_def second_def)
  have valid: "clientValidateFlags ?f = None"
    unfolding sample_client_init
    by (simp add: clientValidateFlags_def sample_client_def default_flags_def hasKeychainIdentity_def
        validateUnixOrLocalhost_def HasPrefix_def Split_char TrimSpace_groups cipherSuites_def)
  obtain config where "buildConfig sample_world ''AES,CHACHA'' ''ca.pem'' = Inr config"
    using sample_buildConfig by blast
  moreover have "caBundle sample_world ''ca.pem'' = Inr [''bundle'']"
    by (simp add: caBundle_def sample_worlds)
  moreover have "listen_error sample_world ''tcp'' a = None" for a
    by (simp add: sample_worlds)
  ultimately show ?thesis
    using flags valid c
    by (simp add: run_def Let_def initLogger_def useSyslog_def buildCertificate_def fields run_client_def
        sample_parses clientBackendDialer_def listen_result_Serving clientListen_def CompileList_def
        new_context_def serveStatus_if_set_def)
qed

end
