(* ===== verification/System.thy ===== *)
theory System
  imports Samples
begin

text \<open>
  The running process: what \<open>serverListen\<close> and \<open>clientListen\<close> do from the moment the timed reload
  is started (opening the listeners, \<open>go p.Accept()\<close>, \<open>signalHandler\<close>, \<open>Wait\<close>, and the exit in
  \<open>main\<close>), with every goroutine of the process: the main goroutine, the timed reload, the
  goroutines of the proxy and the timer of the forced exit. They share the context, the proxy, the
  channel of signals and the clock.

  A reload is not atomic here: it marks the status, loads, stores the pointer and marks the status
  again, and two reloads (one of a signal, one of a tick) may overlap.

  Signals that are not relayed to the channel have their default action: \<open>SIGINT\<close> and \<open>SIGTERM\<close>
  end the process, \<open>SIGUSR1\<close> is ignored, and what any other signal does is left open. The handler
  relays signals from its call of \<open>signal.Notify\<close> until its deferred \<open>signal.Stop\<close>.

  The parameters of the step relation are the build, the peers of the proxy and the set of the
  worlds in which reloads may run.
\<close>


section \<open>Reloading in steps\<close>

datatype reload_at = Resting | Marking | Loading | Storing Certificate | Finishing

text \<open>
  The next action of a goroutine in \<open>reload\<close>. A failed load is logged and stores nothing. Only
  the pointer \<open>cached\<close> of a certificate object changes after it was made, so storing the pointer
  is storing the object.
\<close>

fun reload_step :: "world \<Rightarrow> reload_at \<Rightarrow> Context \<Rightarrow> (reload_at \<times> Context) outcome" where
  "reload_step w Resting ctx = Value (Resting, ctx)"
| "reload_step w Marking ctx = Value (Loading, ctx\<lparr>status := Reloading (status ctx)\<rparr>)"
| "reload_step w Loading ctx =
     (case cert ctx of
        None \<Rightarrow> Panic nil_dereference
      | Some c \<Rightarrow>
          (case Reload w c of
             (c', Value _) \<Rightarrow> Value (Storing c', ctx)
           | (c', Failure err) \<Rightarrow> Value (Finishing, ctx)
           | (c', Panic p) \<Rightarrow> Panic p))"
| "reload_step w (Storing c) ctx = Value (Finishing, ctx\<lparr>cert := Some c\<rparr>)"
| "reload_step w Finishing ctx = Value (Resting, ctx\<lparr>status := Listening (status ctx)\<rparr>)"

text \<open>A reload that no other goroutine interrupts.\<close>

fun reload_steps :: "nat \<Rightarrow> world \<Rightarrow> reload_at \<Rightarrow> Context \<Rightarrow> (reload_at \<times> Context) outcome" where
  "reload_steps 0 w pc ctx = Value (pc, ctx)"
| "reload_steps (Suc n) w pc ctx =
     (case reload_step w pc ctx of
        Value (pc', ctx') \<Rightarrow> reload_steps n w pc' ctx'
      | Failure err \<Rightarrow> Failure err
      | Panic p \<Rightarrow> Panic p)"


section \<open>The process\<close>

text \<open>
  The positions of the main goroutine: before \<open>go p.Accept()\<close>, before \<open>context.status.Listening()\<close>,
  before \<open>signal.Notify\<close>, in \<open>select\<close>, in \<open>reload\<close>, in \<open>p.Shutdown()\<close>, before the deferred
  \<open>signal.Stop\<close>, in \<open>p.Wait()\<close>, and on the way to \<open>exitFunc(0)\<close>.
\<close>

datatype main_at = Opening | Announcing | Subscribing | Selecting | InReload reload_at | InShutdown | InStop | InWait | Leaving

datatype process_end = Exited nat | PanicExit | Killed Signal

record process =
  ctx :: Context
  proxy :: proxy_state
  pending :: "Signal list"
  main_at :: main_at
  ticker_at :: reload_at
  ticker_interval :: int
  clock :: int
  exit_timer :: "int option"
  status_shutdown :: bool
  ended :: "process_end option"

text \<open>
  The process when the timed reload is started: the status is that of \<open>newStatusHandler\<close>. The
  result \<open>st\<close> of opening the listeners, which no other goroutine takes part in, is in the state
  from the beginning; the proxy stands still until \<open>go p.Accept()\<close>, and nothing but the main
  goroutine reads \<open>statusHTTP\<close>.
\<close>

definition process_start :: "int \<Rightarrow> started \<Rightarrow> process" where
  "process_start interval st =
     \<lparr>ctx = (started_context st)\<lparr>status := newStatusHandler\<rparr>, proxy = started_proxy st, pending = [], main_at = Opening,
      ticker_at = Resting, ticker_interval = interval, clock = 0, exit_timer = None,
      status_shutdown = False, ended = None\<rparr>"

definition relayed :: "build \<Rightarrow> main_at \<Rightarrow> Signal \<Rightarrow> bool" where
  "relayed b at sig \<longleftrightarrow> at \<notin> {Opening, Announcing, Subscribing, InWait, Leaving} \<and> sig \<in> set (shutdownSignals b @ refreshSignals b)"

fun default_actions :: "Signal \<Rightarrow> process_end option list" where
  "default_actions SIGUSR1 = [None]"
| "default_actions (OtherSignal n) = [None, Some (Killed (OtherSignal n))]"
| "default_actions sig = [Some (Killed sig)]"

definition end_if_panicked :: "proxy_state \<Rightarrow> process_end option" where
  "end_if_panicked p = (if panicked p then Some PanicExit else None)"

text \<open>The main goroutine receives a signal.\<close>

definition take_signal :: "build \<Rightarrow> Signal \<Rightarrow> process \<Rightarrow> process" where
  "take_signal b sig s =
     (if isShutdownSignal b sig
      then s\<lparr>main_at := InShutdown, exit_timer := Some (clock s + context_shutdownTimeout (ctx s)),
             status_shutdown := statusHTTP (ctx s)\<rparr>
      else s\<lparr>main_at := InReload Marking\<rparr>)"

text \<open>The main goroutine makes one step of \<open>p.Shutdown()\<close>, of which it is the only caller.\<close>

definition main_Shutdown :: "process \<Rightarrow> process" where
  "main_Shutdown s =
     (case Shutdown (hd (shutdowns (proxy s))) (proxy s) of
        (pc, p) \<Rightarrow> s\<lparr>proxy := p\<lparr>shutdowns := [pc]\<rparr>, main_at := (if pc = Idle then InStop else InShutdown),
          ended := end_if_panicked p\<rparr>)"

inductive process_step :: "build \<Rightarrow> peers \<Rightarrow> world set \<Rightarrow> process \<Rightarrow> process \<Rightarrow> bool"
  for b :: build and net :: peers and W :: "world set" where
  signal_relayed:
    "ended s = None \<Longrightarrow> relayed b (main_at s) sig \<Longrightarrow>
     process_step b net W s (s\<lparr>pending := Notify b sig (pending s)\<rparr>)"
| signal_default:
    "ended s = None \<Longrightarrow> \<not> relayed b (main_at s) sig \<Longrightarrow> e \<in> set (default_actions sig) \<Longrightarrow>
     process_step b net W s (s\<lparr>ended := e\<rparr>)"
| opens:
    "ended s = None \<Longrightarrow> main_at s = Opening \<Longrightarrow> process_step b net W s (s\<lparr>main_at := Announcing\<rparr>)"
| announces:
    "ended s = None \<Longrightarrow> main_at s = Announcing \<Longrightarrow>
     process_step b net W s (s\<lparr>ctx := (ctx s)\<lparr>status := Listening (status (ctx s))\<rparr>, main_at := Subscribing\<rparr>)"
| subscribes:
    "ended s = None \<Longrightarrow> main_at s = Subscribing \<Longrightarrow> process_step b net W s (s\<lparr>main_at := Selecting\<rparr>)"
| takes_signal:
    "ended s = None \<Longrightarrow> main_at s = Selecting \<Longrightarrow> pending s = sig # sigs \<Longrightarrow>
     process_step b net W s (take_signal b sig (s\<lparr>pending := sigs\<rparr>))"
| main_reloads:
    "ended s = None \<Longrightarrow> main_at s = InReload pc \<Longrightarrow> w \<in> W \<Longrightarrow> reload_step w pc (ctx s) = Value (pc', c) \<Longrightarrow>
     process_step b net W s (s\<lparr>ctx := c, main_at := (if pc' = Resting then Selecting else InReload pc')\<rparr>)"
| main_reload_panics:
    "ended s = None \<Longrightarrow> main_at s = InReload pc \<Longrightarrow> w \<in> W \<Longrightarrow> reload_step w pc (ctx s) = Panic msg \<Longrightarrow>
     process_step b net W s (s\<lparr>ended := Some PanicExit\<rparr>)"
| ticks:
    "ended s = None \<Longrightarrow> 0 < ticker_interval s \<Longrightarrow> ticker_at s = Resting \<Longrightarrow>
     process_step b net W s (s\<lparr>ticker_at := Marking\<rparr>)"
| ticker_reloads:
    "ended s = None \<Longrightarrow> ticker_at s \<noteq> Resting \<Longrightarrow> w \<in> W \<Longrightarrow>
     reload_step w (ticker_at s) (ctx s) = Value (pc', c) \<Longrightarrow>
     process_step b net W s (s\<lparr>ctx := c, ticker_at := pc'\<rparr>)"
| ticker_reload_panics:
    "ended s = None \<Longrightarrow> ticker_at s \<noteq> Resting \<Longrightarrow> w \<in> W \<Longrightarrow> reload_step w (ticker_at s) (ctx s) = Panic msg \<Longrightarrow>
     process_step b net W s (s\<lparr>ended := Some PanicExit\<rparr>)"
| proxy_runs:
    "ended s = None \<Longrightarrow> main_at s \<noteq> Opening \<Longrightarrow> proxy_step net (proxy s) p \<Longrightarrow> shutdowns p = shutdowns (proxy s) \<Longrightarrow>
     process_step b net W s (s\<lparr>proxy := p, ended := end_if_panicked p\<rparr>)"
| main_shuts_down:
    "ended s = None \<Longrightarrow> main_at s = InShutdown \<Longrightarrow> process_step b net W s (main_Shutdown s)"
| stops_signals:
    "ended s = None \<Longrightarrow> main_at s = InStop \<Longrightarrow> process_step b net W s (s\<lparr>main_at := InWait\<rparr>)"
| wait_returns:
    "ended s = None \<Longrightarrow> main_at s = InWait \<Longrightarrow> Wait_returns (proxy s) \<Longrightarrow>
     process_step b net W s (s\<lparr>main_at := Leaving\<rparr>)"
| exits:
    "ended s = None \<Longrightarrow> main_at s = Leaving \<Longrightarrow> process_step b net W s (s\<lparr>ended := Some (Exited 0)\<rparr>)"
| time_passes:
    "ended s = None \<Longrightarrow> 0 < d \<Longrightarrow> process_step b net W s (s\<lparr>clock := clock s + d\<rparr>)"
| forced_exit:
    "ended s = None \<Longrightarrow> exit_timer s = Some t \<Longrightarrow> t \<le> clock s \<Longrightarrow>
     process_step b net W s (s\<lparr>ended := Some (Exited 1)\<rparr>)"

inductive_cases process_stepE: "process_step b net W s s'"

definition process_reachable ::
  "build \<Rightarrow> peers \<Rightarrow> world set \<Rightarrow> process \<Rightarrow> process \<Rightarrow> bool" where
  "process_reachable b net W s s' \<longleftrightarrow> (process_step b net W)\<^sup>*\<^sup>* s s'"


section \<open>Control\<close>

interpretation processes: transition_system "process_step b net W" "process_reachable b net W" for b net W
  by unfold_locales (simp add: process_reachable_def)

lemma shutdown_step_moves:
  assumes "Shutdown (shutdowns p ! i) p = (pc, q)" and "i < length (shutdowns p)"
  shows "(shutdowns p)[i := pc] \<noteq> shutdowns p"
proof -
  have "pc \<noteq> shutdowns p ! i"
    using assms(1) by (cases "shutdowns p ! i") (auto split: if_splits)
  then show ?thesis using assms(2) by (metis nth_list_update_eq)
qed

text \<open>A step of the proxy that is not one of \<open>Shutdown\<close>.\<close>

lemma worker_step:
  assumes "proxy_step net p p'" and "shutdowns p' = shutdowns p"
  shows "quit p' = quit p" "listener_open p' = listener_open p" "\<not> panicked p"
proof -
  have "quit p' = quit p \<and> listener_open p' = listener_open p \<and> \<not> panicked p"
    using assms
  proof cases
    case (shutdown_steps i pc q)
    with shutdown_step_moves [OF shutdown_steps(4,3)] assms(2) show ?thesis by simp
  qed simp_all
  then show "quit p' = quit p" "listener_open p' = listener_open p" "\<not> panicked p" by simp_all
qed

definition shutdown_begun :: "main_at \<Rightarrow> bool" where
  "shutdown_begun at \<longleftrightarrow> at \<in> {InShutdown, InStop, InWait, Leaving}"

definition main_inv :: "process \<Rightarrow> bool" where
  "main_inv s \<longleftrightarrow>
     (\<exists>pc. shutdowns (proxy s) = [pc] \<and>
        (if main_at s = InShutdown then pc \<in> {Idle, LoadQuit} \<longrightarrow> \<not> quit (proxy s)
         else pc = Idle \<and> quit (proxy s) = shutdown_begun (main_at s))) \<and>
     (exit_timer s \<noteq> None \<longleftrightarrow> shutdown_begun (main_at s))"

text \<open>Whether a reload of the certificate in use can panic.\<close>

definition reload_can_panic :: "world set \<Rightarrow> process \<Rightarrow> bool" where
  "reload_can_panic W s \<longleftrightarrow>
     (case cert (ctx s) of None \<Rightarrow> True | Some c \<Rightarrow> (\<exists>w\<in>W. \<exists>msg. snd (Reload w c) = Panic msg))"

fun end_inv :: "build \<Rightarrow> world set \<Rightarrow> process \<Rightarrow> process_end option \<Rightarrow> bool" where
  "end_inv b W s None \<longleftrightarrow> \<not> panicked (proxy s)"
| "end_inv b W s (Some (Exited n)) \<longleftrightarrow>
     n = 0 \<and> main_at s = Leaving \<or> n = 1 \<and> (\<exists>t. exit_timer s = Some t \<and> t \<le> clock s)"
| "end_inv b W s (Some PanicExit) \<longleftrightarrow> panicked (proxy s) \<or> reload_can_panic W s"
| "end_inv b W s (Some (Killed sig)) \<longleftrightarrow> sig \<noteq> SIGUSR1 \<and> \<not> relayed b (main_at s) sig"

definition process_inv :: "build \<Rightarrow> peers \<Rightarrow> world set \<Rightarrow> bool \<Rightarrow> process \<Rightarrow> bool" where
  "process_inv b net W pp s \<longleftrightarrow>
     proxy_reachable net (start 1 pp) (proxy s) \<and> main_inv s \<and> end_inv b W s (ended s)"

lemma reload_step_Panic: "reload_step w pc c = Panic msg \<Longrightarrow> c = ctx s \<Longrightarrow> w \<in> W \<Longrightarrow> reload_can_panic W s"
proof -
  assume "reload_step w pc c = Panic msg" and c: "c = ctx s" "w \<in> W"
  then have "cert c = None \<or> (\<exists>k k'. cert c = Some k \<and> Reload w k = (k', Panic msg))"
    by (cases pc) (auto split: option.splits prod.splits outcome.splits)
  with c show ?thesis
    by (auto simp: reload_can_panic_def split: option.split) (metis snd_conv)
qed

lemma default_action_Killed:
  "e \<in> set (default_actions sig) \<Longrightarrow> e = None \<or> e = Some (Killed sig) \<and> sig \<noteq> SIGUSR1"
  by (cases sig) auto

lemma end_if_panicked_inv: "proxy s = p \<Longrightarrow> end_inv b W s (end_if_panicked p)"
  by (simp add: end_if_panicked_def)

lemma main_Shutdown_inv:
  assumes "process_inv b net W pp s" and "ended s = None" and "main_at s = InShutdown"
  shows "process_inv b net W pp (main_Shutdown s)"
proof -
  from assms obtain pc where pc: "shutdowns (proxy s) = [pc]" "pc \<in> {Idle, LoadQuit} \<longrightarrow> \<not> quit (proxy s)"
      "proxy_reachable net (start 1 pp) (proxy s)" "\<not> panicked (proxy s)" "exit_timer s \<noteq> None"
    by (auto simp: process_inv_def main_inv_def shutdown_begun_def)
  obtain pc' p where p: "Shutdown pc (proxy s) = (pc', p)" by fastforce
  let ?p = "p\<lparr>shutdowns := [pc']\<rparr>"
  have reach: "proxy_reachable net (start 1 pp) ?p"
    using reach_shutdown [of 0 "proxy s" pc' p net "start 1 pp"] pc p by simp
  have "pc' = Idle \<Longrightarrow> quit p" and "pc' = LoadQuit \<Longrightarrow> \<not> quit p"
    using p pc(1,2) reachable_wait_inv [OF pc(3)]
    by (cases pc; auto simp: wait_inv_def wg_Add_def split: if_splits)+
  with pc(1,5) p reach show ?thesis
    by (simp add: process_inv_def main_Shutdown_def main_inv_def shutdown_begun_def end_if_panicked_def)
qed

lemma process_inv_step:
  assumes "process_step b net W s s'" and "process_inv b net W pp s"
  shows "process_inv b net W pp s'"
  using assms
proof cases
  case (signal_default sig e)
  then show ?thesis
    using assms(2) default_action_Killed [OF signal_default(4)]
    by (auto simp: process_inv_def main_inv_def)
next
  case (takes_signal sig sigs)
  then show ?thesis
    using assms(2) by (auto simp: process_inv_def main_inv_def take_signal_def shutdown_begun_def)
next
  case (main_reloads pc w pc' c)
  then show ?thesis
    using assms(2) by (auto simp: process_inv_def main_inv_def shutdown_begun_def)
next
  case (main_reload_panics pc w msg)
  then show ?thesis
    using assms(2) reload_step_Panic [OF main_reload_panics(5) _ main_reload_panics(4)]
    by (auto simp: process_inv_def main_inv_def reload_can_panic_def)
next
  case (ticker_reload_panics w msg)
  then show ?thesis
    using assms(2) reload_step_Panic [OF ticker_reload_panics(5) _ ticker_reload_panics(4)]
    by (auto simp: process_inv_def main_inv_def reload_can_panic_def)
next
  case (proxy_runs p)
  then show ?thesis
    using assms(2) worker_step [OF proxy_runs(4,5)] reachable_step [OF proxy_runs(4)]
    by (auto simp: process_inv_def main_inv_def end_if_panicked_def)
next
  case main_shuts_down
  then show ?thesis using assms(2) main_Shutdown_inv by simp
qed (use assms(2) in \<open>auto simp: process_inv_def main_inv_def shutdown_begun_def\<close>)

lemma process_start_inv:
  assumes "started_proxy st = start 1 pp"
  shows "process_inv b net W pp (process_start interval st)"
  using assms reachable_start [of net "start 1 pp"]
  by (simp add: process_inv_def process_start_def main_inv_def shutdown_begun_def)

lemma process_reachable_inv:
  assumes "process_reachable b net W (process_start interval st) s" and "started_proxy st = start 1 pp"
  shows "process_inv b net W pp s"
  using assms(1) process_start_inv [OF assms(2)] process_inv_step by (rule processes.invariant)


section \<open>Certificates and status while reloads overlap\<close>

lemma reload_step_cert:
  assumes "reload_step w pc c = Value (pc', c')" and "cert c = Some (reloads Reload ws k)" and "set ws \<subseteq> W" and "w \<in> W"
    and "\<And>x. pc = Storing x \<Longrightarrow> \<exists>vs. set vs \<subseteq> W \<and> x = reloads Reload vs k"
  shows "(\<exists>vs. set vs \<subseteq> W \<and> cert c' = Some (reloads Reload vs k)) \<and>
    (\<forall>x. pc' = Storing x \<longrightarrow> (\<exists>vs. set vs \<subseteq> W \<and> x = reloads Reload vs k))"
proof (cases pc)
  case Loading
  have "x = reloads Reload (ws @ [w]) k" if "pc' = Storing x" for x
    using assms(1,2) Loading that by (auto split: prod.splits outcome.splits)
  moreover have "cert c' = cert c"
    using assms(1,2) Loading by (auto split: prod.splits outcome.splits)
  moreover have "set (ws @ [w]) \<subseteq> W" using assms(3,4) by simp
  ultimately show ?thesis using assms(2,3) by metis
qed (use assms in auto)

text \<open>
  Every certificate in the state is the result of a sequence of reloads, each in a world of
  \<open>W\<close>, from the certificate that start-up loaded.
\<close>

definition cert_inv :: "world set \<Rightarrow> Certificate \<Rightarrow> process \<Rightarrow> bool" where
  "cert_inv W k s \<longleftrightarrow>
     (\<exists>ws. set ws \<subseteq> W \<and> cert (ctx s) = Some (reloads Reload ws k)) \<and>
     (\<forall>x. main_at s = InReload (Storing x) \<or> ticker_at s = Storing x \<longrightarrow>
        (\<exists>ws. set ws \<subseteq> W \<and> x = reloads Reload ws k))"

lemma cert_inv_step:
  assumes "process_step b net W s s'" and "cert_inv W k s"
  shows "cert_inv W k s'"
proof -
  from assms(2) obtain ws where ws: "set ws \<subseteq> W" "cert (ctx s) = Some (reloads Reload ws k)"
    by (auto simp: cert_inv_def)
  from assms show ?thesis
  proof cases
    case (main_reloads pc w pc' c)
    from reload_step_cert [OF main_reloads(5) ws(2,1) main_reloads(4)] assms(2) main_reloads(1,3) show ?thesis
      by (auto simp: cert_inv_def)
  next
    case (ticker_reloads w pc' c)
    from reload_step_cert [OF ticker_reloads(5) ws(2,1) ticker_reloads(4)] assms(2) ticker_reloads(1) show ?thesis
      by (auto simp: cert_inv_def)
  qed (use assms(2) in \<open>auto simp: cert_inv_def take_signal_def main_Shutdown_def split: prod.split\<close>)
qed

lemma process_reachable_cert_inv:
  assumes "process_reachable b net W (process_start interval st) s" and "cert (started_context st) = Some k"
  shows "cert_inv W k s"
proof (rule processes.invariant [OF assms(1) _ cert_inv_step])
  show "cert_inv W k (process_start interval st)"
    using assms(2) by (auto simp: cert_inv_def process_start_def intro!: exI [of _ "[]"])
qed

definition busy :: "reload_at \<Rightarrow> bool" where
  "busy pc \<longleftrightarrow> pc \<notin> {Resting, Marking}"

fun main_busy :: "main_at \<Rightarrow> bool" where
  "main_busy (InReload pc) = busy pc"
| "main_busy _ = False"

definition status_inv :: "process \<Rightarrow> bool" where
  "status_inv s \<longleftrightarrow>
     (if main_at s \<in> {Opening, Announcing} then listening (status (ctx s)) \<longrightarrow> 0 < ticker_interval s
      else listening (status (ctx s))) \<and>
     (ticker_at s \<noteq> Resting \<longrightarrow> 0 < ticker_interval s) \<and>
     (reloading (status (ctx s)) \<longrightarrow> main_busy (main_at s) \<or> busy (ticker_at s))"

lemma reload_step_status:
  assumes "reload_step w pc c = Value (pc', c')"
  shows "(listening (status c) \<longrightarrow> listening (status c')) \<and> (reloading (status c') \<longrightarrow> busy pc' \<or> reloading (status c) \<and> \<not> busy pc)"
  using assms
  by (cases pc) (auto simp: Reloading_def Listening_def busy_def split: option.splits prod.splits outcome.splits)

lemma status_inv_step:
  assumes "process_step b net W s s'" and "status_inv s"
  shows "status_inv s'"
  using assms
proof cases
  case (main_reloads pc w pc' c)
  with reload_step_status [OF main_reloads(5)] assms(2) show ?thesis
    by (cases pc') (auto simp: status_inv_def busy_def)
next
  case (ticker_reloads w pc' c)
  with reload_step_status [OF ticker_reloads(5)] assms(2) show ?thesis
    by (auto simp: status_inv_def)
next
  case announces
  with assms(2) show ?thesis by (simp add: status_inv_def Listening_def)
qed (use assms(2) in \<open>auto simp: status_inv_def take_signal_def main_Shutdown_def busy_def split: prod.split\<close>)

lemma process_reachable_status_inv:
  assumes "process_reachable b net W (process_start interval st) s"
  shows "status_inv s"
proof (rule processes.invariant [OF assms _ status_inv_step])
  show "status_inv (process_start interval st)"
    by (simp add: status_inv_def process_start_def newStatusHandler_def)
qed

lemma process_reachable_interval:
  assumes "process_reachable b net W (process_start interval st) s"
  shows "ticker_interval s = interval"
proof (rule processes.invariant [OF assms])
  fix x y assume "process_step b net W x y" and "ticker_interval x = interval"
  then show "ticker_interval y = interval"
    by cases (auto simp: take_signal_def main_Shutdown_def split: prod.split)
qed (simp add: process_start_def)


section \<open>Schedules\<close>

text \<open>
  The steps of the process that do not depend on the network, as a function: one action of the
  environment or of one goroutine. A list of actions is a schedule; its result is reachable.
\<close>

datatype action =
    OpenListeners | Announce | Subscribe | Deliver Signal | Receive | MainReload world | Tick | TickerReload world | MainShutdown
  | StopSignals | WaitReturns | Exit0 | Elapse int | TimerFires

definition after_reload :: "process \<Rightarrow> (reload_at \<times> Context) outcome \<Rightarrow> (reload_at \<Rightarrow> process \<Rightarrow> process) \<Rightarrow> process option" where
  "after_reload s r move =
     (case r of
        Value (pc, c) \<Rightarrow> Some (move pc (s\<lparr>ctx := c\<rparr>))
      | Panic msg \<Rightarrow> Some (s\<lparr>ended := Some PanicExit\<rparr>)
      | Failure err \<Rightarrow> None)"

fun perform :: "build \<Rightarrow> action \<Rightarrow> process \<Rightarrow> process option" where
  "perform b OpenListeners s = (if main_at s = Opening then Some (s\<lparr>main_at := Announcing\<rparr>) else None)"
| "perform b Announce s =
     (if main_at s = Announcing
      then Some (s\<lparr>ctx := (ctx s)\<lparr>status := Listening (status (ctx s))\<rparr>, main_at := Subscribing\<rparr>) else None)"
| "perform b Subscribe s = (if main_at s = Subscribing then Some (s\<lparr>main_at := Selecting\<rparr>) else None)"
| "perform b (Deliver sig) s =
     (if relayed b (main_at s) sig then Some (s\<lparr>pending := Notify b sig (pending s)\<rparr>)
      else Some (s\<lparr>ended := last (default_actions sig)\<rparr>))"
| "perform b Receive s =
     (case (main_at s, pending s) of
        (Selecting, sig # sigs) \<Rightarrow> Some (take_signal b sig (s\<lparr>pending := sigs\<rparr>))
      | _ \<Rightarrow> None)"
| "perform b (MainReload w) s =
     (case main_at s of
        InReload pc \<Rightarrow> after_reload s (reload_step w pc (ctx s))
          (\<lambda>pc' s. s\<lparr>main_at := (if pc' = Resting then Selecting else InReload pc')\<rparr>)
      | _ \<Rightarrow> None)"
| "perform b Tick s =
     (if 0 < ticker_interval s \<and> ticker_at s = Resting then Some (s\<lparr>ticker_at := Marking\<rparr>) else None)"
| "perform b (TickerReload w) s =
     (if ticker_at s = Resting then None
      else after_reload s (reload_step w (ticker_at s) (ctx s)) (\<lambda>pc' s. s\<lparr>ticker_at := pc'\<rparr>))"
| "perform b MainShutdown s = (if main_at s = InShutdown then Some (main_Shutdown s) else None)"
| "perform b StopSignals s = (if main_at s = InStop then Some (s\<lparr>main_at := InWait\<rparr>) else None)"
| "perform b WaitReturns s =
     (if main_at s = InWait \<and> Wait_returns (proxy s) then Some (s\<lparr>main_at := Leaving\<rparr>) else None)"
| "perform b Exit0 s = (if main_at s = Leaving then Some (s\<lparr>ended := Some (Exited 0)\<rparr>) else None)"
| "perform b (Elapse d) s = (if 0 < d then Some (s\<lparr>clock := clock s + d\<rparr>) else None)"
| "perform b TimerFires s =
     (case exit_timer s of
        Some t \<Rightarrow> if t \<le> clock s then Some (s\<lparr>ended := Some (Exited 1)\<rparr>) else None
      | None \<Rightarrow> None)"

fun schedule :: "build \<Rightarrow> action list \<Rightarrow> process \<Rightarrow> process option" where
  "schedule b [] s = Some s"
| "schedule b (a # as) s =
     (if ended s \<noteq> None then None
      else case perform b a s of None \<Rightarrow> None | Some s' \<Rightarrow> schedule b as s')"

fun action_worlds :: "action \<Rightarrow> world set" where
  "action_worlds (MainReload w) = {w}"
| "action_worlds (TickerReload w) = {w}"
| "action_worlds _ = {}"

lemma last_default_actions: "last (default_actions sig) \<in> set (default_actions sig)"
  by (cases sig) simp_all

lemma perform_step:
  assumes "perform b a s = Some s'" and "ended s = None" and "action_worlds a \<subseteq> W"
  shows "process_step b net W s s'"
proof (cases a)
  case (Deliver sig)
  then show ?thesis
    using assms last_default_actions by (auto intro: process_step.intros split: if_splits)
next
  case (MainReload w)
  with assms show ?thesis
    by (auto simp: after_reload_def split: main_at.splits outcome.splits prod.splits intro: main_reload_panics
        main_reloads [of s _ w])
next
  case (TickerReload w)
  with assms show ?thesis
    by (auto simp: after_reload_def split: if_splits outcome.splits prod.splits intro: ticker_reload_panics
        ticker_reloads [of s w])
qed (use assms in \<open>auto intro: process_step.intros split: if_splits option.splits main_at.splits list.splits
    simp del: One_nat_def\<close>)

lemma schedule_reachable:
  assumes "schedule b as s = Some s'" and "(\<Union>a\<in>set as. action_worlds a) \<subseteq> W"
  shows "process_reachable b net W s s'"
  using assms
proof (induction "as" arbitrary: s)
  case Nil
  then show ?case by (simp add: processes.reach_refl)
next
  case (Cons a "as")
  then obtain s1 where s1: "ended s = None" "perform b a s = Some s1" "schedule b as s1 = Some s'"
    by (auto split: if_splits option.splits)
  with Cons.prems(2) have "process_step b net W s s1"
    by (intro perform_step) auto
  with Cons.IH [OF s1(3)] Cons.prems(2) show ?case
    by (auto intro: processes.reach_trans processes.reach_step [OF _ processes.reach_refl])
qed

lemma schedule_append:
  "schedule b (as @ bs) s = (case schedule b as s of None \<Rightarrow> None | Some s' \<Rightarrow> schedule b bs s')"
  by (induction "as" arbitrary: s) (simp_all split: option.split)

text \<open>A process that has come to \<open>select\<close> without a tick.\<close>

definition launched :: "int \<Rightarrow> started \<Rightarrow> process" where
  "launched interval st = (process_start interval st)
     \<lparr>ctx := (started_context st)\<lparr>status := Listening newStatusHandler\<rparr>, main_at := Selecting\<rparr>"

lemma launch_reaches: "process_reachable b net W (process_start interval st) (launched interval st)"
proof -
  have "schedule b [OpenListeners, Announce, Subscribe] (process_start interval st) = Some (launched interval st)"
    by (simp add: process_start_def launched_def)
  then show ?thesis by (rule schedule_reachable) simp
qed

lemma launched_reachable:
  "process_reachable b net W (launched interval st) s \<Longrightarrow> process_reachable b net W (process_start interval st) s"
  using launch_reaches by (rule processes.reach_trans)

lemmas launched_simps = launched_def process_start_def


section \<open>The signal handler as a run of the process\<close>

lemma reload_reaches:
  assumes "reload w (ctx s) = Value c" and "ended s = None" and "main_at s = InReload Marking" and "w \<in> W"
  shows "process_reachable b net W s (s\<lparr>ctx := c, main_at := Selecting\<rparr>)"
proof -
  from assms(1) obtain k where k: "cert (ctx s) = Some k"
    by (auto simp: reload_def Let_def split: option.splits)
  obtain k' r where r: "Reload w k = (k', r)" by fastforce
  have keeps: "k' = k" if "\<not> succeeded r"
    using certificate.failure_keeps [of w k] that r by simp
  have "\<exists>n. schedule b (replicate n (MainReload w)) s = Some (s\<lparr>ctx := c, main_at := Selecting\<rparr>)"
  proof (cases r)
    case (Value u)
    with assms k r show ?thesis
      by (intro exI [of _ 4])
        (auto simp: reload_def Let_def after_reload_def Reloading_def Listening_def eval_nat_numeral)
  next
    case (Failure err)
    with assms k r keeps show ?thesis
      by (intro exI [of _ 3])
        (auto simp: reload_def Let_def after_reload_def Reloading_def Listening_def eval_nat_numeral)
  next
    case (Panic p)
    with assms k r show ?thesis by (simp add: reload_def Let_def)
  qed
  then obtain n where "schedule b (replicate n (MainReload w)) s = Some (s\<lparr>ctx := c, main_at := Selecting\<rparr>)" ..
  then show ?thesis by (rule schedule_reachable) (use assms(4) in auto)
qed

lemma reload_panics:
  assumes "reload w (ctx s) = Panic msg" and "ended s = None" and "main_at s = InReload Marking" and "w \<in> W"
  shows "\<exists>s'. process_reachable b net W s s' \<and> ended s' = Some PanicExit"
proof -
  have "\<exists>s'. schedule b [MainReload w, MainReload w] s = Some s' \<and> ended s' = Some PanicExit"
    using assms by (auto simp: reload_def Let_def after_reload_def split: option.splits prod.splits outcome.splits)
  then show ?thesis using assms(4) schedule_reachable [of b "[MainReload w, MainReload w]" s _ W net] by fastforce
qed

lemma reload_not_Failure [simp]: "reload w c \<noteq> Failure err"
  by (auto simp: reload_def Let_def split: option.splits prod.splits outcome.splits)

lemma receive_reaches:
  assumes "ended s = None" and "main_at s = Selecting" and "pending s = []"
    and "sig \<in> set (shutdownSignals b @ refreshSignals b)"
  shows "process_reachable b net W s (take_signal b sig s)"
proof -
  have "take_signal b sig (s\<lparr>pending := []\<rparr>) = take_signal b sig s"
    using assms(3) by (cases s) simp
  then have "schedule b [Deliver sig, Receive] s = Some (take_signal b sig s)"
    using assms by (simp add: relayed_def Notify_def)
  then show ?thesis by (rule schedule_reachable) simp
qed

text \<open>What a result of \<open>signalHandler\<close> says of the process.\<close>

fun handler_run :: "build \<Rightarrow> peers \<Rightarrow> world set \<Rightarrow> process \<Rightarrow> handler_result \<Rightarrow> bool" where
  "handler_run b net W s (Waiting c) \<longleftrightarrow> process_reachable b net W s (s\<lparr>ctx := c\<rparr>)"
| "handler_run b net W s (ShutDown c actions) \<longleftrightarrow>
     process_reachable b net W s (s\<lparr>ctx := c, main_at := InShutdown,
       exit_timer := Some (clock s + context_shutdownTimeout c), status_shutdown := statusHTTP c\<rparr>)"
| "handler_run b net W s (Crashed msg) \<longleftrightarrow>
     (\<exists>s'. process_reachable b net W s s' \<and> ended s' = Some PanicExit)"

lemma handler_run_trans:
  assumes "process_reachable b net W s (s\<lparr>ctx := c\<rparr>)" and "handler_run b net W (s\<lparr>ctx := c\<rparr>) r"
  shows "handler_run b net W s r"
  using assms by (cases r) (auto intro: processes.reach_trans)



section \<open>How a process starts and what it remembers\<close>

lemma serveStatus_context:
  "serveStatus_if_set w f c = Value (c', stat) \<Longrightarrow>
   cert c' = cert c \<and> status c' = status c \<and> context_shutdownTimeout c' = context_shutdownTimeout c"
  by (auto simp: serveStatus_if_set_def serveStatus_def Let_def split: sum.splits option.splits if_splits)

lemma listeners_start:
  assumes "serverListen w f c = Value st \<or> clientListen w f c = Value st"
  shows "\<exists>pp. started_proxy st = start 1 pp" "status (started_context st) = Listening (status c)"
    "cert (started_context st) = cert c" "context_shutdownTimeout (started_context st) = context_shutdownTimeout c"
proof -
  from assms obtain c' stat where st: "serveStatus_if_set w f c = Value (c', stat)"
      "started_context st = c'\<lparr>status := Listening (status c')\<rparr>"
    by (auto simp: serverListen_def clientListen_def Let_def split: sum.splits option.splits if_splits)
  moreover have "\<exists>pp. started_proxy st = start 1 pp"
    using assms by (blast elim: serverListen_Value clientListen_Value)
  ultimately
  show "\<exists>pp. started_proxy st = start 1 pp" "status (started_context st) = Listening (status c)"
    "cert (started_context st) = cert c" "context_shutdownTimeout (started_context st) = context_shutdownTimeout c"
    using serveStatus_context [OF st(1)] by simp_all
qed

lemma run_started:
  assumes "run b w f command = Serving st be"
  obtains pp where "started_proxy st = start 1 pp" "listening (status (started_context st))"
    "\<not> reloading (status (started_context st))" "context_shutdownTimeout (started_context st) = shutdownTimeout f"
    "\<And>k. cert (started_context st) = Some k \<Longrightarrow> cached k \<noteq> None"
proof -
  obtain certificate where c:
      "buildCertificate b w (init_flags b f) (keystorePath f) (keystorePass f) = Value certificate"
      "serverListen w (init_flags b f) (new_context (init_flags b f) certificate) = Value st \<or>
       clientListen w (init_flags b f) (new_context (init_flags b f) certificate) = Value st"
    using assms by (elim run_Serving) (auto elim: run_server_Serving run_client_Serving)
  note started = listeners_start [OF c(2)]
  obtain pp where "started_proxy st = start 1 pp"
    using started(1) by blast
  moreover have "shutdownTimeout (init_flags b f) = shutdownTimeout f"
    by (simp add: init_flags_def Let_def)
  ultimately show ?thesis
    using started(2-4) buildCertificate_loaded c(1)
    by (intro that [of pp]) (auto simp: new_context_def Listening_def newStatusHandler_def)
qed

lemma run_started_proxy:
  assumes "run b w f command = Serving st be"
  shows "started_proxy st = start 1 (command = ServerCommand \<and> serverProxyProtocol f)"
proof -
  have "serverProxyProtocol (init_flags b f) = serverProxyProtocol f"
    by (simp add: init_flags_def Let_def)
  then show ?thesis
    using assms
    by (elim run_Serving) (auto elim!: run_server_Serving run_client_Serving serverListen_Value clientListen_Value)
qed

abbreviation serving :: "flags \<Rightarrow> started \<Rightarrow> process" where
  "serving f st \<equiv> process_start (timedReload f) st"

lemma timeout_step:
  "process_step b net W s s' \<Longrightarrow> context_shutdownTimeout (ctx s') = context_shutdownTimeout (ctx s)"
proof (induction rule: process_step.induct)
  case (main_reloads s pc w pc' c)
  then show ?case by (cases pc) (auto split: option.splits prod.splits outcome.splits)
next
  case (ticker_reloads s w pc' c)
  then show ?case by (cases "ticker_at s") (auto split: option.splits prod.splits outcome.splits)
qed (simp_all add: take_signal_def main_Shutdown_def split: prod.split)

text \<open>The timer of the forced exit is set when a shutdown signal is received.\<close>

definition received_shutdown :: "build \<Rightarrow> process \<Rightarrow> bool" where
  "received_shutdown b s \<longleftrightarrow>
     main_at s = Selecting \<and> (\<exists>sig sigs. pending s = sig # sigs \<and> isShutdownSignal b sig)"

lemma exit_timer_history:
  assumes "process_reachable b net W s s'" and "exit_timer s = None" and "exit_timer s' = Some t"
  shows "\<exists>x. process_reachable b net W s x \<and> process_reachable b net W x s' \<and> received_shutdown b x \<and>
    t = clock x + context_shutdownTimeout (ctx x)"
proof -
  let ?set = "\<lambda>s' t. \<exists>x. process_reachable b net W s x \<and> process_reachable b net W x s' \<and> received_shutdown b x \<and>
    t = clock x + context_shutdownTimeout (ctx x)"
  have "process_reachable b net W s s' \<and> (\<forall>t. exit_timer s' = Some t \<longrightarrow> ?set s' t)"
  proof (rule processes.invariant [OF assms(1)])
    fix x y assume step: "process_step b net W x y"
      and x: "process_reachable b net W s x \<and> (\<forall>t. exit_timer x = Some t \<longrightarrow> ?set x t)"
    then have y: "process_reachable b net W s y" "\<And>t. ?set x t \<Longrightarrow> ?set y t"
      by (blast intro: processes.reach_step)+
    have "exit_timer y = exit_timer x \<or>
        received_shutdown b x \<and> exit_timer y = Some (clock x + context_shutdownTimeout (ctx x))"
      using step by cases
        (auto simp: take_signal_def main_Shutdown_def received_shutdown_def split: prod.split)
    moreover have "?set y t" if "received_shutdown b x" "t = clock x + context_shutdownTimeout (ctx x)" for t
      using x that processes.reach_step [OF step processes.reach_refl] by blast
    ultimately show "process_reachable b net W s y \<and> (\<forall>t. exit_timer y = Some t \<longrightarrow> ?set y t)"
      using x y by auto
  qed (use assms(2) processes.reach_refl in simp)
  with assms(3) show ?thesis by blast
qed

lemma leaving_history:
  assumes "process_reachable b net W s s'" and "main_at s \<noteq> Leaving" and "main_at s' = Leaving"
  obtains x where "process_reachable b net W s x" "process_reachable b net W x s'" "main_at x = InWait"
    "Wait_returns (proxy x)"
proof -
  from assms obtain x y where xy: "process_reachable b net W s x" "main_at x \<noteq> Leaving" "process_step b net W x y"
      "main_at y = Leaving" "process_reachable b net W y s'"
    by (rule processes.cause [where P = "\<lambda>s. main_at s = Leaving"])
  from xy(3,2,4) have "main_at x = InWait \<and> Wait_returns (proxy x)"
    by cases (auto simp: take_signal_def main_Shutdown_def split: if_splits prod.splits)
  with xy that show ?thesis
    by (blast intro: processes.reach_trans processes.reach_step [OF _ processes.reach_refl])
qed

lemma no_conns_after_close:
  assumes "process_reachable b net W s s'" and "\<not> listener_open (proxy s)"
  shows "length (conns (proxy s')) = length (conns (proxy s))"
proof -
  have "\<not> listener_open (proxy s') \<and> length (conns (proxy s')) = length (conns (proxy s))"
  proof (rule processes.invariant [OF assms(1)])
    fix x y assume "process_step b net W x y"
      and x: "\<not> listener_open (proxy x) \<and> length (conns (proxy x)) = length (conns (proxy s))"
    then show "\<not> listener_open (proxy y) \<and> length (conns (proxy y)) = length (conns (proxy s))"
    proof cases
      case (proxy_runs p)
      with x closed_step [OF proxy_runs(4)] show ?thesis by simp
    next
      case main_shuts_down
      obtain pc p where "Shutdown (hd (shutdowns (proxy x))) (proxy x) = (pc, p)" by fastforce
      with x main_shuts_down Shutdown_keeps(1,8) [OF this] show ?thesis
        by (auto simp: main_Shutdown_def)
    qed (simp_all add: take_signal_def)
  qed (use assms(2) in simp)
  then show ?thesis ..
qed


section \<open>Completing a shutdown\<close>

fun shutdown_left :: "shutdown_call \<Rightarrow> nat" where
  "shutdown_left Idle = 5" | "shutdown_left LoadQuit = 4" | "shutdown_left StoreQuit = 3"
| "shutdown_left CloseListener = 2" | "shutdown_left DoneHandlers = 1"

fun main_left :: "main_at \<Rightarrow> shutdown_call \<Rightarrow> nat" where
  "main_left InShutdown pc = 3 + shutdown_left pc" | "main_left InStop pc = 3" | "main_left InWait pc = 2"
| "main_left Leaving pc = 1" | "main_left _ pc = 0"

fun accept_left :: "accept_loop \<Rightarrow> nat" where
  "accept_left Accepting = 2" | "accept_left CheckingQuit = 1" | "accept_left Stopped = 0"

definition conns_left :: "proxy_state \<Rightarrow> nat" where
  "conns_left p = sum_list (map (\<lambda>c. stage_left (stage c)) (conns p))"

text \<open>How much the main goroutine and the proxy have left to do once a shutdown has begun.\<close>

definition drain_left :: "process \<Rightarrow> nat" where
  "drain_left s =
     (if ended s \<noteq> None then 0
      else 1 + main_left (main_at s) (hd (shutdowns (proxy s))) + accept_left (accept_at (proxy s)) +
        conns_left (proxy s))"

lemma sum_list_update_less:
  fixes f :: "'a \<Rightarrow> nat"
  shows "i < length xs \<Longrightarrow> f y < f (xs ! i) \<Longrightarrow> sum_list (map f (xs[i := y])) < sum_list (map f xs)"
proof (induction xs arbitrary: i)
  case (Cons x xs)
  then show ?case by (cases i) simp_all
qed simp

lemma conns_left_step:
  "conn_step net pp (conns p ! i) d c \<Longrightarrow> i < length (conns p) \<Longrightarrow>
   conns_left (apply_delta d (p\<lparr>conns := (conns p)[i := c]\<rparr>)) < conns_left p"
  unfolding conns_left_def by (simp add: sum_list_update_less stage_left_step)

lemma closed_proxy_step_less:
  assumes "proxy_step net p p'" and "shutdowns p' = shutdowns p" and "quit p" and "\<not> listener_open p"
    and "\<not> panicked p'"
  shows "accept_left (accept_at p') + conns_left p' < accept_left (accept_at p) + conns_left p"
  using assms
proof cases
  case (handler_steps i d c)
  with conns_left_step [OF handler_steps(4,3)] show ?thesis by simp
next
  case (shutdown_steps i pc q)
  with shutdown_step_moves [OF shutdown_steps(4,3)] assms(2) show ?thesis by simp
qed (use assms in \<open>simp_all add: conns_left_def\<close>)

lemma main_Shutdown_less:
  assumes "main_at s = InShutdown" and "ended s = None"
  shows "drain_left (main_Shutdown s) < drain_left s"
proof -
  define pc where "pc = hd (shutdowns (proxy s))"
  obtain pc' p where p: "Shutdown pc (proxy s) = (pc', p)" by fastforce
  have "conns p = conns (proxy s)" "accept_at p = accept_at (proxy s)"
    using Shutdown_keeps [OF p] by simp_all
  moreover have "pc' \<noteq> Idle \<Longrightarrow> shutdown_left pc' < shutdown_left pc"
    using p by (cases pc) (auto split: if_splits)
  moreover have "0 < shutdown_left pc"
    by (cases pc) simp_all
  ultimately show ?thesis
    using p assms unfolding pc_def
    by (auto simp: drain_left_def main_Shutdown_def conns_left_def end_if_panicked_def)
qed

lemma main_Shutdown_alive:
  assumes "process_inv b net W pp s" and "ended s = None"
  shows "\<not> panicked (proxy (main_Shutdown s))" "ended (main_Shutdown s) = None" "clock (main_Shutdown s) = clock s"
    "shutdown_begun (main_at (main_Shutdown s))"
proof -
  have inv: "proxy_reachable net (start 1 pp) (proxy s)" "\<not> panicked (proxy s)"
    using assms by (auto simp: process_inv_def)
  obtain pc where pc: "shutdowns (proxy s) = [pc]" "shutdown_inv pc (quit (proxy s)) (listener_open (proxy s))
      (handlers (proxy s) - total holds (proxy s))"
    using reachable_wait_inv [OF inv(1)] by (auto simp: wait_inv_def)
  obtain pc' p where p: "Shutdown pc (proxy s) = (pc', p)" by fastforce
  from shutdown_inv_step [OF p pc(2) total_holds_nonneg inv(2)] pc(1) p
  show "\<not> panicked (proxy (main_Shutdown s))" "ended (main_Shutdown s) = None" "clock (main_Shutdown s) = clock s"
    "shutdown_begun (main_at (main_Shutdown s))"
    by (simp_all add: main_Shutdown_def end_if_panicked_def shutdown_begun_def)
qed

text \<open>What keeps \<open>Wait\<close> from returning is a fused connection.\<close>

lemma waits_for_fused:
  assumes "process_inv b net W pp s" and "main_at s = InWait" and "\<not> Wait_returns (proxy s)"
  shows "\<not> list_all (\<lambda>c. holds c = 0) (conns (proxy s))"
proof -
  have inv: "main_inv s" "wait_inv (proxy s)"
    using assms(1) reachable_wait_inv by (auto simp: process_inv_def)
  have "quit (proxy s)" "shutdowns (proxy s) = [Idle]"
    using inv(1) assms(2) by (auto simp: main_inv_def shutdown_begun_def)
  moreover from this have "\<not> listener_open (proxy s)"
    using inv(2) by (auto simp: wait_inv_def)
  ultimately show ?thesis
    using assms(3) Wait_returns_iff [OF inv(2)] by simp
qed

text \<open>
  The steps of a process whose listener is closed that move the main goroutine or the proxy, or
  end the process; the rest are signals that change nothing, reloads and the clock.
\<close>

definition drain_step :: "build \<Rightarrow> peers \<Rightarrow> world set \<Rightarrow> process \<Rightarrow> process \<Rightarrow> bool" where
  "drain_step b net W s s' \<longleftrightarrow>
     process_step b net W s s' \<and> shutdown_begun (main_at s) \<and> quit (proxy s) \<and> \<not> listener_open (proxy s) \<and>
     (main_at s', proxy s', ended s') \<noteq> (main_at s, proxy s, ended s)"

lemma drain_step_less:
  assumes "drain_step b net W s s'"
  shows "drain_left s' < drain_left s"
proof -
  from assms have step: "process_step b net W s s'" and s: "shutdown_begun (main_at s)" "quit (proxy s)"
      "\<not> listener_open (proxy s)" "(main_at s', proxy s', ended s') \<noteq> (main_at s, proxy s, ended s)"
    by (simp_all add: drain_step_def)
  from step s show ?thesis
  proof cases
    case (signal_default sig e)
    with s(4) default_action_Killed [OF signal_default(4)] show ?thesis by (auto simp: drain_left_def)
  next
    case (proxy_runs p)
    with closed_proxy_step_less [OF proxy_runs(4,5) s(2,3)] show ?thesis
      by (cases "panicked p") (simp_all add: drain_left_def end_if_panicked_def)
  next
    case main_shuts_down
    with main_Shutdown_less show ?thesis by simp
  qed (auto simp: drain_left_def shutdown_begun_def)
qed

lemma drain_terminates: "wfp (\<lambda>y x. drain_step b net W x y)"
  by (rule wfp_if_convertible_to_nat [of _ drain_left]) (rule drain_step_less)


section \<open>Properties\<close>

text \<open>A process for the witnesses, and a schedule that shuts it down.\<close>

definition shutdown_schedule :: "action list" where
  "shutdown_schedule = [Deliver SIGTERM, Receive, MainShutdown, MainShutdown, MainShutdown, MainShutdown, MainShutdown, StopSignals]"

lemma sample_build_signals [simp]:
  "shutdownSignals sample_build = [SIGINT, SIGTERM]" "refreshSignals sample_build = [SIGUSR1]"
  by (simp_all add: shutdownSignals_def refreshSignals_def sample_build_def)

lemma shutdown_schedule_runs:
  assumes "started_proxy st = start 1 pp"
  shows "\<exists>s. schedule sample_build shutdown_schedule (launched interval st) = Some s \<and> main_at s = InWait \<and>
    ended s = None \<and> Wait_returns (proxy s)"
  using assms
  by (simp add: shutdown_schedule_def launched_simps relayed_def Notify_def take_signal_def main_Shutdown_def
      wg_Add_def end_if_panicked_def Wait_returns_def)

lemma sample_process:
  obtains st be where "run sample_build sample_world sample_server ServerCommand = Serving st be"
  using sample_serving_runs unfolding sample_serving_def by blast

lemma sample_draining:
  assumes "run sample_build sample_world sample_server ServerCommand = Serving st be"
  obtains s where "process_reachable sample_build net W (serving sample_server st) s"
    "main_at s = InWait" "ended s = None" "Wait_returns (proxy s)"
proof -
  obtain pp where "started_proxy st = start 1 pp" using assms by (rule run_started)
  from shutdown_schedule_runs [OF this] obtain s where
    "schedule sample_build shutdown_schedule (launched (timedReload sample_server) st) = Some s" "main_at s = InWait" "ended s = None"
    "Wait_returns (proxy s)" by blast
  with that launched_reachable [OF schedule_reachable [of sample_build shutdown_schedule "launched (timedReload sample_server) st" s W net]]
  show ?thesis by (simp add: shutdown_schedule_def)
qed

lemma sample_continues:
  assumes "process_reachable sample_build net W s0 s" and "schedule sample_build as s = Some s'"
    and "(\<Union>a\<in>set as. action_worlds a) \<subseteq> W"
  shows "process_reachable sample_build net W s0 s'"
  using assms(1) schedule_reachable [OF assms(2,3)] by (rule processes.reach_trans)

text \<open>
  C5. When and how the process exits. It exits with a status only after it has received a
  shutdown signal. It exits with 0 only if, after the listener was closed, there was a moment at
  which no connection was fused, and no connection was accepted since; it exits with 1 only when
  the shutdown timeout has passed since the signal.
\<close>

theorem process_exit_status:
  assumes "run b w f command = Serving st be" and "process_reachable b net W (serving f st) s"
    and "ended s = Some (Exited n)"
  shows "\<exists>x. process_reachable b net W (serving f st) x \<and> process_reachable b net W x s \<and> received_shutdown b x \<and>
    (n = 0 \<and> (\<exists>y. process_reachable b net W (serving f st) y \<and> process_reachable b net W y s \<and>
       quit (proxy y) \<and> \<not> listener_open (proxy y) \<and> list_all (\<lambda>c. holds c = 0) (conns (proxy y)) \<and>
       length (conns (proxy s)) = length (conns (proxy y))) \<or>
     n = 1 \<and> clock x + shutdownTimeout f \<le> clock s)"
proof -
  obtain pp where st: "started_proxy st = start 1 pp" "context_shutdownTimeout (started_context st) = shutdownTimeout f"
    using assms(1) by (rule run_started)
  note inv = process_reachable_inv [OF _ st(1)]
  have start: "exit_timer (serving f st) = None" "main_at (serving f st) \<noteq> Leaving"
      "context_shutdownTimeout (ctx (serving f st)) = shutdownTimeout f"
    using st(2) by (simp_all add: process_start_def)
  from inv [OF assms(2)] assms(3) obtain t where t: "exit_timer s = Some t"
      and n: "n = 0 \<and> main_at s = Leaving \<or> n = 1 \<and> t \<le> clock s"
    by (auto simp: process_inv_def main_inv_def shutdown_begun_def)
  from exit_timer_history [OF assms(2) start(1) t] obtain x where x: "process_reachable b net W (serving f st) x"
      "process_reachable b net W x s" "received_shutdown b x" "t = clock x + context_shutdownTimeout (ctx x)"
    by blast
  have "context_shutdownTimeout (ctx x) = shutdownTimeout f"
    using x(1) start(3) by (rule processes.invariant) (simp add: timeout_step)
  moreover have "\<exists>y. process_reachable b net W (serving f st) y \<and> process_reachable b net W y s \<and>
      quit (proxy y) \<and> \<not> listener_open (proxy y) \<and> list_all (\<lambda>c. holds c = 0) (conns (proxy y)) \<and>
      length (conns (proxy s)) = length (conns (proxy y))" if "main_at s = Leaving"
    using assms(2) start(2) that
  proof (rule leaving_history)
    fix y assume y: "process_reachable b net W (serving f st) y" "process_reachable b net W y s" "Wait_returns (proxy y)"
    have "wait_inv (proxy y)"
      using inv [OF y(1)] by (auto simp: process_inv_def intro: reachable_wait_inv)
    with y no_conns_after_close [OF y(2)] show ?thesis
      by (auto simp: Wait_returns_iff)
  qed
  ultimately show ?thesis
    using n x by auto
qed

theorem process_exit_status_witness:
  "\<exists>st be x. run sample_build sample_world sample_server ServerCommand = Serving st be \<and>
     process_reachable sample_build any_peers {} (serving sample_server st) x \<and> received_shutdown sample_build x"
proof -
  obtain st be where st: "run sample_build sample_world sample_server ServerCommand = Serving st be"
    by (rule sample_process)
  then obtain s where "process_reachable sample_build any_peers {} (serving sample_server st) s"
    "main_at s = InWait" "ended s = None" "Wait_returns (proxy s)"
    by (rule sample_draining)
  note s = st this
  let ?s = "s\<lparr>main_at := Leaving, ended := Some (Exited 0)\<rparr>"
  have "process_reachable sample_build any_peers {} (serving sample_server st) ?s"
    using s(2) by (rule sample_continues [of _ _ _ _ "[WaitReturns, Exit0]"]) (use s(3-5) in simp_all)
  with process_exit_status [OF s(1), of any_peers "{}" ?s 0] s(1) show ?thesis by auto
qed

text \<open>
  The channel of signals: it never holds more than three signals, and only signals that were
  asked for.
\<close>

theorem pending_signals_bounded:
  assumes "process_reachable b net W (serving f st) s"
  shows "length (pending s) \<le> 3 \<and> set (pending s) \<subseteq> set (shutdownSignals b @ refreshSignals b)"
proof (rule processes.invariant [OF assms])
  show "length (pending (serving f st)) \<le> 3 \<and> set (pending (serving f st)) \<subseteq> set (shutdownSignals b @ refreshSignals b)"
    by (simp add: process_start_def)
  fix x y assume "process_step b net W x y"
    and "length (pending x) \<le> 3 \<and> set (pending x) \<subseteq> set (shutdownSignals b @ refreshSignals b)"
  then show "length (pending y) \<le> 3 \<and> set (pending y) \<subseteq> set (shutdownSignals b @ refreshSignals b)"
    by cases (auto simp: Notify_def take_signal_def main_Shutdown_def split: prod.split)
qed

lemma process_ends_abnormally:
  assumes "run b w f command = Serving st be" and "process_reachable b net W (serving f st) s"
    and "ended s = Some e" and "\<And>n. e \<noteq> Exited n"
  shows "e = PanicExit \<and> (list_ex (bad_header (proxy s)) (conns (proxy s)) \<or> reload_can_panic W s) \<or>
    (\<exists>sig. e = Killed sig \<and> sig \<noteq> SIGUSR1 \<and>
      (sig \<notin> set (shutdownSignals b @ refreshSignals b) \<or> main_at s \<in> {Opening, Announcing, Subscribing, InWait, Leaving}))"
proof -
  obtain pp where st: "started_proxy st = start 1 pp"
    using assms(1) by (rule run_started)
  have inv: "process_inv b net W pp s"
    using process_reachable_inv [OF assms(2) st] .
  then have "panicked (proxy s) \<longrightarrow> list_ex (bad_header (proxy s)) (conns (proxy s))"
    using reachable_wait_inv by (auto simp: process_inv_def wait_inv_def)
  with inv assms(3,4) show ?thesis
    by (cases e) (auto simp: process_inv_def relayed_def)
qed

lemma fold_last_good:
  "fold (\<lambda>w c. if P w then g w else c) ws x = x \<or> (\<exists>w\<in>set ws. P w \<and> fold (\<lambda>w c. if P w then g w else c) ws x = g w)"
  by (induction ws arbitrary: x) auto

text \<open>The sample server in a reload: the status is marked, nothing is loaded yet.\<close>

lemma sample_reloading:
  obtains st be s where "run sample_build sample_world sample_server ServerCommand = Serving st be"
    "process_reachable sample_build net {broken_world} (serving sample_server st) s"
    "main_at s = InReload Loading" "reloading (status (ctx s))"
proof -
  obtain st be where st: "run sample_build sample_world sample_server ServerCommand = Serving st be"
    by (rule sample_process)
  let ?run = "[Deliver SIGUSR1, Receive, MainReload broken_world]"
  have "\<exists>s. schedule sample_build ?run (launched (timedReload sample_server) st) = Some s \<and> main_at s = InReload Loading \<and>
      reloading (status (ctx s))"
    by (simp add: launched_simps relayed_def Notify_def take_signal_def after_reload_def Reloading_def)
  then obtain s where s: "schedule sample_build ?run (launched (timedReload sample_server) st) = Some s"
      "main_at s = InReload Loading" "reloading (status (ctx s))" by blast
  from s(1) have "process_reachable sample_build net {broken_world} (serving sample_server st) s"
    by (rule launched_reachable [OF schedule_reachable]) simp
  with st s(2,3) that show ?thesis by blast
qed

text \<open>
  The certificate while reloads overlap: in every reachable state of a process that started
  with a certificate, the certificate that is presented is the one of start-up or one that a
  single successful reload loads, in a world in which a reload may run. It is never nil and never
  a mixture of two loads.
\<close>

lemma served_certificate_was_loaded:
  assumes "run b w f command = Serving st be" and "cert (started_context st) = Some k"
    and "process_reachable b net W (serving f st) s"
  shows "\<exists>c pair. cert (ctx s) = Some c \<and> GetCertificate c = Inr (Some pair) \<and>
    (GetCertificate k = Inr (Some pair) \<or>
     (\<exists>v\<in>W. snd (Reload v k) = Value () \<and> GetCertificate (fst (Reload v k)) = Inr (Some pair)))"
proof -
  have k: "cached k \<noteq> None"
    using assms(1,2) by (elim run_started) blast
  obtain ws where ws: "set ws \<subseteq> W" "cert (ctx s) = Some (reloads Reload ws k)"
    using process_reachable_cert_inv [OF assms(3,2)] by (auto simp: cert_inv_def)
  let ?c = "cached (reloads Reload ws k)"
  have "?c \<noteq> None"
    using k by (rule certificate.stays_loaded_all)
  moreover have "?c = cached k \<or> (\<exists>v\<in>set ws. succeeded (snd (Reload v k)) \<and> ?c = cached (fst (Reload v k)))"
    unfolding certificate.serves_last_good [OF k] by (rule fold_last_good)
  ultimately show ?thesis
    using ws by (fastforce simp: succeeded_iff)
qed



text \<open>
  A timed reload that finishes during start-up reports that the process listens before it does: the
  last step of a reload is \<open>context.status.Listening()\<close>, whatever the main goroutine has done.
\<close>

theorem early_tick_reports_listening:
  assumes "0 < interval" and "cert (started_context st) = Some k" and "Reload v k = (k', Value ())"
  shows "\<exists>s. process_reachable b net {v} (process_start interval st) s \<and> main_at s = Opening \<and>
    Message (status_response h (status (ctx s)) err) = ''listening''"
proof -
  let ?run = "[Tick, TickerReload v, TickerReload v, TickerReload v, TickerReload v]"
  have "\<exists>s. schedule b ?run (process_start interval st) = Some s \<and> main_at s = Opening \<and>
      status (ctx s) = Listening (Reloading newStatusHandler)"
    using assms by (simp add: process_start_def after_reload_def)
  then obtain s where s: "schedule b ?run (process_start interval st) = Some s" "main_at s = Opening"
      "status (ctx s) = Listening (Reloading newStatusHandler)" by blast
  from s(1) have "process_reachable b net {v} (process_start interval st) s"
    by (rule schedule_reachable) simp
  with s(2,3) show ?thesis
    by (intro exI [of _ s]) (simp add: status_response_def Let_def Listening_def Reloading_def)
qed

text \<open>
  A reload in steps that nothing interrupts is \<open>reload\<close>: four steps (the last of which is
  idle if the load failed) give the same context, or the same panic.
\<close>

theorem reload_in_steps: "reload_steps 4 w Marking c = map_outcome (Pair Resting) (reload w c)"
proof (cases "cert c")
  case (Some k)
  obtain k' r where r: "Reload w k = (k', r)" by fastforce
  have "k' = k" if "\<not> succeeded r"
    using certificate.failure_keeps [of w k] that r by simp
  with Some r show ?thesis
    by (cases r) (auto simp: reload_def Let_def Reloading_def Listening_def eval_nat_numeral)
qed (simp add: reload_def Let_def eval_nat_numeral)


text \<open>Two worlds that differ in the key of the identity.\<close>

definition renewed_world :: world where
  "renewed_world = sample_world\<lparr>keychain_Identities := Inr [(Inr [der_leaf], Inr ''renewed'')]\<rparr>"

definition keychain_pair :: "string \<Rightarrow> Certificate" where
  "keychain_pair key = Certstore \<lparr>commonName = ''server'',
     certstore_cached = Some \<lparr>Certificate = [''der''], PrivateKey = key, Leaf = None\<rparr>\<rparr>"

definition sample_ticking :: process where
  "sample_ticking = \<lparr>ctx = sample_context, proxy = start 1 False, pending = [], main_at = Selecting,
     ticker_at = Resting, ticker_interval = second, clock = 0, exit_timer = None, status_shutdown = False, ended = None\<rparr>"

lemma sample_reloads:
  "Reload sample_world sample_cert = (keychain_pair ''signer'', Value ())"
  "Reload renewed_world sample_cert = (keychain_pair ''renewed'', Value ())"
  by (simp_all add: sample_cert_def certstore_Reload_def renewed_world_def sample_world_def der_leaf_def keychain_pair_def)



end
