(* ===== verification/Buffers.thy ===== *)
theory Buffers
  imports Copy
begin

text \<open>
  The buffers of \<open>src/proxy/proxy.go\<close>: \<open>bufferPool\<close>, and \<open>copyData\<close> as it works on them.

  Buffers are shared, mutable memory: a buffer that one copier has put back is handed to another,
  with the old bytes still in it. So memory is explicit here: \<open>heap\<close> maps the address of a buffer
  to its contents, and has the addresses in the pool and the number of addresses in use. The
  theory shows that no buffer is ever in two hands, and that a copier that shares the pool with
  any number of others still does what the function \<open>CopyBuffer\<close> of the theory \<open>Copy\<close> says.

  Of \<open>sync.Pool\<close> nothing is assumed but what its documentation promises: \<open>Get\<close> returns any pooled
  buffer and removes it, or ignores the pool and makes a new one; pooled buffers may be dropped
  at any time.
\<close>


section \<open>Memory and the pool\<close>

record heap =
  contents :: "nat \<Rightarrow> string"
  pooled :: "nat list"
  allocated :: nat

definition new_heap :: heap where
  "new_heap = \<lparr>contents = (\<lambda>_. []), pooled = [], allocated = 0\<rparr>"

text \<open>\<open>make([]byte, n)\<close>.\<close>

definition make_bytes :: "nat \<Rightarrow> heap \<Rightarrow> nat \<times> heap" where
  "make_bytes n h = (allocated h,
     h\<lparr>contents := (contents h)(allocated h := replicate n (CHR 0x00)), allocated := Suc (allocated h)\<rparr>)"

definition buffer_size :: nat where
  "buffer_size = 2 ^ 16"

definition bufferPool_New :: "heap \<Rightarrow> nat \<times> heap" where
  "bufferPool_New h = make_bytes buffer_size h"

inductive pool_Get :: "heap \<Rightarrow> nat \<Rightarrow> heap \<Rightarrow> bool" where
  Get_pooled: "x \<in> set (pooled h) \<Longrightarrow> pool_Get h x (h\<lparr>pooled := remove1 x (pooled h)\<rparr>)"
| Get_new: "bufferPool_New h = (x, h') \<Longrightarrow> pool_Get h x h'"

definition pool_Put :: "nat \<Rightarrow> heap \<Rightarrow> heap" where
  "pool_Put x h = h\<lparr>pooled := x # pooled h\<rparr>"

definition pool_drop :: "nat \<Rightarrow> heap \<Rightarrow> heap" where
  "pool_drop x h = h\<lparr>pooled := remove1 x (pooled h)\<rparr>"


section \<open>A copier\<close>

text \<open>
  Where a copier is. It holds the buffer \<open>x\<close> of the pool from \<open>Get\<close> to \<open>Put\<close> and copies through
  the buffer \<open>y\<close>: in \<open>Writing x y n er k\<close> it is in \<open>dst.Write(buf[0:n])\<close>, of which \<open>k\<close> bytes
  are out, and \<open>er\<close> is what the call of \<open>Read\<close> before returned with the bytes. In \<open>CopyReturned\<close> and
  \<open>CopyReleased\<close>, \<open>io.CopyBuffer\<close> has returned, with its error.
\<close>

datatype pump =
    Unstarted | Got nat | Reading nat nat | Writing nat nat nat read_end nat
  | CopyReturned nat "error option" | CopyReleased "error option"

text \<open>
  A direction of a connection: the copier, the results of its calls of \<open>Read\<close> and \<open>Write\<close> so far
  and the bytes that the destination has received from it.
\<close>

record flow =
  pump :: pump
  reads :: "(string \<times> read_end) list"
  writes :: "(nat \<times> error option) list"
  sent :: string

definition idle_flow :: flow where
  "idle_flow = \<lparr>pump = Unstarted, reads = [], writes = [], sent = []\<rparr>"

definition read_bytes :: "flow \<Rightarrow> string" where
  "read_bytes f = concat (map fst (reads f))"

text \<open>
  Destinations with a method \<open>ReadFrom\<close>, which \<open>io.CopyBuffer\<close> prefers to the buffer it is given:
  TCP connections have it, unix and TLS connections do not, other types may. \<open>ReadFrom\<close> copies
  through memory of its own.
\<close>

definition has_ReadFrom :: "conn_kind \<Rightarrow> bool set" where
  "has_ReadFrom k = (case k of TCPConn \<Rightarrow> {True} | OtherConn \<Rightarrow> {True, False} | _ \<Rightarrow> {False})"

text \<open>The loop of \<open>io.CopyBuffer\<close> after a read, and after the write of what was read.\<close>

definition next_read :: "nat \<Rightarrow> nat \<Rightarrow> read_end \<Rightarrow> pump" where
  "next_read x y er =
     (case er of More \<Rightarrow> Reading x y | EOF \<Rightarrow> CopyReturned x None | ReadErr err \<Rightarrow> CopyReturned x (Some err))"

definition after_Read :: "nat \<Rightarrow> nat \<Rightarrow> nat \<Rightarrow> read_end \<Rightarrow> pump" where
  "after_Read x y nr er = (if nr > 0 then Writing x y nr er 0 else next_read x y er)"

definition after_Write :: "nat \<Rightarrow> nat \<Rightarrow> nat \<Rightarrow> read_end \<Rightarrow> nat \<Rightarrow> error option \<Rightarrow> pump" where
  "after_Write x y nr er nw ew =
     (case ew of
        Some err \<Rightarrow> CopyReturned x (Some err)
      | None \<Rightarrow> if nr \<noteq> nw then CopyReturned x (Some ''short write'') else next_read x y er)"

text \<open>
  The steps of \<open>copyData(dst, src, wg)\<close> up to the return of \<open>io.CopyBuffer\<close>. \<open>Read\<close> may use the
  whole buffer as scratch space, and it returns bytes only while the source is open for reading.
  A \<open>Write\<close> hands the bytes out piece by piece, each as it is in memory at that moment, while the
  destination is open for writing; it can return at any time.
\<close>

inductive flow_step :: "endpoint \<Rightarrow> endpoint \<Rightarrow> heap \<Rightarrow> flow \<Rightarrow> heap \<Rightarrow> flow \<Rightarrow> bool"
  for dst :: endpoint and src :: endpoint where
  gets_buffer:
    "pump f = Unstarted \<Longrightarrow> pool_Get h x h' \<Longrightarrow> flow_step dst src h f h' (f\<lparr>pump := Got x\<rparr>)"
| copies_with_buffer:
    "pump f = Got x \<Longrightarrow> False \<in> has_ReadFrom (kind dst) \<Longrightarrow>
     flow_step dst src h f h (f\<lparr>pump := Reading x x\<rparr>)"
| copies_with_ReadFrom:
    "pump f = Got x \<Longrightarrow> True \<in> has_ReadFrom (kind dst) \<Longrightarrow> make_bytes n h = (y, h') \<Longrightarrow>
     flow_step dst src h f h' (f\<lparr>pump := Reading x y\<rparr>)"
| reads_some:
    "pump f = Reading x y \<Longrightarrow> length (buf @ rest) = length (contents h y) \<Longrightarrow>
     (buf \<noteq> [] \<longrightarrow> can_read src) \<Longrightarrow>
     flow_step dst src h f (h\<lparr>contents := (contents h)(y := buf @ rest)\<rparr>)
       (f\<lparr>pump := after_Read x y (length buf) er, reads := reads f @ [(buf, er)]\<rparr>)"
| writes_some:
    "pump f = Writing x y nr er k \<Longrightarrow> 0 < m \<Longrightarrow> k + m \<le> nr \<Longrightarrow> can_write dst \<Longrightarrow>
     flow_step dst src h f h
       (f\<lparr>pump := Writing x y nr er (k + m), sent := sent f @ take m (drop k (contents h y))\<rparr>)"
| write_returns:
    "pump f = Writing x y nr er k \<Longrightarrow>
     flow_step dst src h f h (f\<lparr>pump := after_Write x y nr er k ew, writes := writes f @ [(k, ew)]\<rparr>)"

declare flow_step.intros [step_intros]

inductive_cases flow_stepE: "flow_step dst src h f h' f'"
inductive_cases pool_GetE: "pool_Get h x h'"

text \<open>The deferred \<open>bufferPool.Put(buf)\<close>.\<close>

fun put_buffer :: "heap \<Rightarrow> flow \<Rightarrow> (heap \<times> flow) option" where
  "put_buffer h f =
     (case pump f of
        CopyReturned x err \<Rightarrow> Some (pool_Put x h, f\<lparr>pump := CopyReleased err\<rparr>)
      | _ \<Rightarrow> None)"


section \<open>Copying with a buffer is \<open>CopyBuffer\<close>\<close>

text \<open>All that was read was written, and the source has more.\<close>

definition all_copied :: "(string \<times> read_end) list \<Rightarrow> (nat \<times> error option) list \<Rightarrow> string \<Rightarrow> bool" where
  "all_copied rs ws out \<longleftrightarrow> list_all (\<lambda>(_, e). e = More) rs \<and>
     ws = map (\<lambda>(b, _). (length b, None)) (filter (\<lambda>(b, _). b \<noteq> []) rs) \<and> out = concat (map fst rs)"

lemma CopyBuffer_append:
  "all_copied rs ws out \<Longrightarrow> CopyBuffer (rs @ rs') (ws @ ws') acc = CopyBuffer rs' ws' (acc @ out)"
proof (induction rs arbitrary: ws out acc)
  case (Cons r rs)
  obtain b e where r: "r = (b, e)" by fastforce
  let ?ws = "map (\<lambda>(b, _). (length b, None :: error option)) (filter (\<lambda>(b, _). b \<noteq> []) rs)"
  have "all_copied rs ?ws (concat (map fst rs))"
    using Cons.prems by (simp add: all_copied_def)
  from Cons.IH [OF this] Cons.prems r show ?case
    by (auto simp: all_copied_def)
qed (simp add: all_copied_def)

lemma all_copied_snoc:
  "all_copied rs ws out \<Longrightarrow> buf \<noteq> [] \<Longrightarrow> all_copied (rs @ [(buf, More)]) (ws @ [(length buf, None)]) (out @ buf)"
  "all_copied rs ws out \<Longrightarrow> all_copied (rs @ [([], More)]) ws out"
  by (simp_all add: all_copied_def)

text \<open>
  What a copier has done, as a statement on the results of its calls; \<open>mem\<close> is the contents of
  memory, which matters while a \<open>Write\<close> is under way.
\<close>

fun copy_inv :: "(nat \<Rightarrow> string) \<Rightarrow> flow \<Rightarrow> pump \<Rightarrow> bool" where
  "copy_inv mem f (Reading x y) \<longleftrightarrow> all_copied (reads f) (writes f) (sent f)"
| "copy_inv mem f (Writing x y nr er k) \<longleftrightarrow>
     (\<exists>before out. reads f = before @ [(take nr (mem y), er)] \<and> all_copied before (writes f) out \<and>
        sent f = out @ take k (mem y) \<and> 0 < nr \<and> nr \<le> length (mem y) \<and> k \<le> nr)"
| "copy_inv mem f (CopyReturned x err) \<longleftrightarrow> CopyBuffer (reads f) (writes f) [] = (sent f, Some err) \<and>
     list_all (\<lambda>(_, e). e = More) (butlast (reads f))"
| "copy_inv mem f (CopyReleased err) \<longleftrightarrow> CopyBuffer (reads f) (writes f) [] = (sent f, Some err) \<and>
     list_all (\<lambda>(_, e). e = More) (butlast (reads f))"
| "copy_inv mem f _ \<longleftrightarrow> reads f = [] \<and> writes f = [] \<and> sent f = []"

lemma all_copied_More: "all_copied rs ws out \<Longrightarrow> list_all (\<lambda>(_, e). e = More) rs"
  by (simp add: all_copied_def)

lemma copy_inv_next_read:
  assumes "all_copied before ws out" and "reads f = before @ [(buf, er)]"
    and "writes f = ws @ (if buf = [] then [] else [(length buf, None)])" and "sent f = out @ buf"
  shows "copy_inv mem f (next_read x y er)"
  using assms CopyBuffer_append [OF assms(1), of "[(buf, er)]" "if buf = [] then [] else [(length buf, None)]" "[]"]
    all_copied_snoc [OF assms(1)] all_copied_More [OF assms(1)]
  by (cases er) (auto simp: next_read_def)

lemma copy_inv_after_Read:
  assumes "copy_inv mem f (Reading x y)" and "mem' y = buf @ rest"
  shows "copy_inv mem' (f\<lparr>pump := p, reads := reads f @ [(buf, er)]\<rparr>) (after_Read x y (length buf) er)"
  using assms by (auto simp: after_Read_def intro!: copy_inv_next_read)

lemma copy_inv_writes_some:
  assumes "copy_inv mem f (Writing x y nr er k)" and "k + m \<le> nr"
  shows "copy_inv mem (f\<lparr>pump := p, sent := sent f @ take m (drop k (mem y))\<rparr>) (Writing x y nr er (k + m))"
  using assms by (auto simp: take_add)

lemma copy_inv_after_Write:
  assumes "copy_inv mem f (Writing x y nr er k)"
  shows "copy_inv mem (f\<lparr>pump := p, writes := writes f @ [(k, ew)]\<rparr>) (after_Write x y nr er k ew)"
proof -
  from assms obtain before out where w: "reads f = before @ [(take nr (mem y), er)]" "all_copied before (writes f) out"
      "sent f = out @ take k (mem y)" "0 < nr" "nr \<le> length (mem y)" "k \<le> nr"
    by auto
  show ?thesis
  proof (cases "ew = None \<and> k = nr")
    case True
    with w show ?thesis by (auto simp: after_Write_def min_def intro!: copy_inv_next_read)
  next
    case False
    with w CopyBuffer_append [OF w(2), of "[(take nr (mem y), er)]" "[(k, ew)]" "[]"] all_copied_More [OF w(2)] show ?thesis
      by (auto simp: after_Write_def min_def split: option.splits)
  qed
qed

text \<open>In every state the destination has received a prefix of what the source has sent.\<close>

lemma copy_inv_prefix:
  assumes "copy_inv mem f p"
  shows "prefix (sent f) (read_bytes f)"
proof (cases p)
  case (Writing x y nr er k)
  with assms show ?thesis
    by (auto simp: read_bytes_def all_copied_def) (metis min.absorb1 take_is_prefix take_take)
next
  case (CopyReturned x err)
  with assms CopyBuffer_writes_prefix [of "reads f" "writes f"] show ?thesis by (simp add: read_bytes_def)
next
  case (CopyReleased err)
  with assms CopyBuffer_writes_prefix [of "reads f" "writes f"] show ?thesis by (simp add: read_bytes_def)
qed (use assms in \<open>auto simp: read_bytes_def all_copied_def\<close>)

text \<open>A copier that ended without an error has passed on all that it read, up to the end of the source.\<close>

lemma copy_inv_complete:
  assumes "CopyBuffer (reads f) (writes f) [] = (sent f, Some None)"
    and "list_all (\<lambda>(_, e). e = More) (butlast (reads f))"
  shows "sent f = read_bytes f \<and> (\<exists>before buf. reads f = before @ [(buf, EOF)])"
proof -
  obtain before buf after where rs: "reads f = before @ (buf, EOF) # after" "sent f = concat (map fst before) @ buf"
    using CopyBuffer_EOF [OF assms(1)] by auto
  then have "after = []"
    using assms(2) by (cases after rule: rev_cases) (auto simp: butlast_append)
  with rs show ?thesis by (auto simp: read_bytes_def)
qed


section \<open>Who holds which buffer\<close>

fun held :: "pump \<Rightarrow> nat set" where
  "held (Got x) = {x}" | "held (Reading x y) = {x}" | "held (Writing x y nr er k) = {x}"
| "held (CopyReturned x err) = {x}" | "held _ = {}"

fun owned :: "pump \<Rightarrow> nat set" where
  "owned (Reading x y) = {x, y}" | "owned (Writing x y nr er k) = {x, y}" | "owned p = held p"

definition heap_inv :: "heap \<Rightarrow> bool" where
  "heap_inv h \<longleftrightarrow> distinct (pooled h) \<and> set (pooled h) \<subseteq> {..<allocated h} \<and>
     (\<forall>x\<in>set (pooled h). length (contents h x) = buffer_size)"

definition client_inv :: "heap \<Rightarrow> flow \<Rightarrow> bool" where
  "client_inv h f \<longleftrightarrow> copy_inv (contents h) f (pump f) \<and>
     owned (pump f) \<subseteq> {..<allocated h} - set (pooled h) \<and>
     (\<forall>x\<in>held (pump f). length (contents h x) = buffer_size)"

text \<open>Any number of copiers, named by keys.\<close>

definition pool_inv :: "heap \<Rightarrow> ('k \<Rightarrow> flow) \<Rightarrow> bool" where
  "pool_inv h F \<longleftrightarrow> heap_inv h \<and> (\<forall>k. client_inv h (F k)) \<and>
     (\<forall>k l. k \<noteq> l \<longrightarrow> owned (pump (F k)) \<inter> owned (pump (F l)) = {})"

text \<open>
  What a user of the pool guarantees to all others when the buffers it owns change from \<open>own\<close> to
  \<open>own'\<close>: it touches only its own and new memory, and takes buffers from the pool only.
\<close>

definition guarantee :: "heap \<Rightarrow> nat set \<Rightarrow> heap \<Rightarrow> nat set \<Rightarrow> bool" where
  "guarantee h own h' own' \<longleftrightarrow> allocated h \<le> allocated h' \<and>
     set (pooled h') \<union> own' \<subseteq> set (pooled h) \<union> own \<union> {allocated h..<allocated h'} \<and>
     (\<forall>z<allocated h. z \<notin> own \<longrightarrow> contents h' z = contents h z)"

lemma held_owned: "held p \<subseteq> owned p"
  by (cases p) auto

lemma copy_inv_frame:
  assumes "copy_inv mem f p" and "\<forall>z\<in>owned p. mem' z = mem z"
  shows "copy_inv mem' f p"
  using assms by (cases p) auto

lemma guarantee_apart:
  assumes "guarantee h own h' own'" and "S \<subseteq> {..<allocated h} - set (pooled h)" and "S \<inter> own = {}"
  shows "S \<inter> own' = {}" "S \<subseteq> {..<allocated h'} - set (pooled h')"
proof -
  have "x \<notin> own' \<and> x \<notin> set (pooled h') \<and> x < allocated h'" if "x \<in> S" for x
  proof -
    have "x < allocated h" "x \<notin> set (pooled h) \<union> own" using assms(2,3) that by auto
    then show ?thesis using assms(1) by (auto simp: guarantee_def)
  qed
  then show "S \<inter> own' = {}" "S \<subseteq> {..<allocated h'} - set (pooled h')" by auto
qed

lemma client_inv_frame:
  assumes "client_inv h g" and "guarantee h own h' own'" and "owned (pump g) \<inter> own = {}"
  shows "client_inv h' g"
proof -
  have same: "\<forall>z\<in>owned (pump g). contents h' z = contents h z"
    using assms by (auto simp: client_inv_def guarantee_def)
  then have "copy_inv (contents h') g (pump g)"
    using assms(1) copy_inv_frame by (auto simp: client_inv_def)
  moreover have "owned (pump g) \<subseteq> {..<allocated h'} - set (pooled h')"
    using guarantee_apart(2) [OF assms(2) _ assms(3)] assms(1) by (simp add: client_inv_def)
  ultimately show ?thesis
    using assms(1) same held_owned [of "pump g"] by (auto simp: client_inv_def subset_iff)
qed

text \<open>The contract of an operation of one copier.\<close>

locale pool_client =
  fixes step :: "heap \<Rightarrow> flow \<Rightarrow> heap \<Rightarrow> flow \<Rightarrow> bool"
  assumes keeps: "step h f h' f' \<Longrightarrow> heap_inv h \<Longrightarrow> client_inv h f \<Longrightarrow> heap_inv h' \<and> client_inv h' f'"
    and guarantees: "step h f h' f' \<Longrightarrow> heap_inv h \<Longrightarrow> client_inv h f \<Longrightarrow>
      guarantee h (owned (pump f)) h' (owned (pump f'))"
begin

lemma step_pool_inv:
  assumes "step h (F k) h' f'" and "pool_inv h F"
  shows "pool_inv h' (F(k := f'))"
proof -
  have inv: "heap_inv h" "\<And>l. client_inv h (F l)"
    "\<And>k l. k \<noteq> l \<Longrightarrow> owned (pump (F k)) \<inter> owned (pump (F l)) = {}"
    using assms(2) by (auto simp: pool_inv_def)
  note g = guarantees [OF assms(1) inv(1,2)]
  have other: "client_inv h' (F l)" if "l \<noteq> k" for l
    using client_inv_frame [OF inv(2) g inv(3) [OF that]] .
  have apart: "owned (pump (F l)) \<inter> owned (pump f') = {}" if "l \<noteq> k" for l
    using guarantee_apart(1) [OF g _ inv(3) [OF that]] inv(2) [of l] by (simp add: client_inv_def)
  show ?thesis
    using keeps [OF assms(1) inv(1,2)] other apart apart [unfolded Int_commute [of "owned (pump (F _))"]] inv(3)
    by (auto simp: pool_inv_def)
qed

end

lemma make_bytes_eq:
  "make_bytes n h = (x, h') \<longleftrightarrow> x = allocated h \<and>
     h' = h\<lparr>contents := (contents h)(allocated h := replicate n (CHR 0x00)), allocated := Suc (allocated h)\<rparr>"
  by (auto simp: make_bytes_def)

lemma pool_Get_cases:
  assumes "pool_Get h x h'" and "heap_inv h"
  shows "heap_inv h' \<and> x < allocated h' \<and> x \<notin> set (pooled h') \<and> length (contents h' x) = buffer_size \<and>
    guarantee h {} h' {x}"
  using assms
proof cases
  case Get_pooled
  then show ?thesis
    using assms(2) by (auto simp: heap_inv_def guarantee_def dest: set_remove1_subset [THEN subsetD])
next
  case Get_new
  then show ?thesis
    using assms(2) by (fastforce simp: bufferPool_New_def make_bytes_eq heap_inv_def guarantee_def)
qed

lemma guarantee_own: "guarantee h own h own' \<longleftrightarrow> own' \<subseteq> set (pooled h) \<union> own"
  by (auto simp: guarantee_def)

lemma owned_after:
  "owned (next_read x y er) \<subseteq> {x, y}" "held (next_read x y er) = {x}"
  "owned (after_Read x y nr er) \<subseteq> {x, y}" "held (after_Read x y nr er) = {x}"
  "owned (after_Write x y nr er nw ew) \<subseteq> {x, y}" "held (after_Write x y nr er nw ew) = {x}"
  by (auto simp: next_read_def after_Read_def after_Write_def split: read_end.splits option.splits if_splits)

interpretation copiers: pool_client "flow_step dst src" for dst src
proof unfold_locales
  fix h f h' f'
  assume "flow_step dst src h f h' f'" and h: "heap_inv h" and f: "client_inv h f"
  then have "heap_inv h' \<and> client_inv h' f' \<and> guarantee h (owned (pump f)) h' (owned (pump f'))"
  proof cases
    case (gets_buffer x)
    with pool_Get_cases [OF gets_buffer(3) h] f show ?thesis by (auto simp: client_inv_def)
  next
    case (copies_with_buffer x)
    with f h show ?thesis by (auto simp: client_inv_def guarantee_own all_copied_def)
  next
    case (copies_with_ReadFrom x n y)
    with f h show ?thesis
      by (fastforce simp: client_inv_def guarantee_def all_copied_def make_bytes_eq heap_inv_def)
  next
    case (reads_some x y buf rest er)
    have "copy_inv (contents h) f (Reading x y)"
      using f reads_some(3) by (simp add: client_inv_def)
    from copy_inv_after_Read [OF this, where mem' = "contents h'" and buf = buf and rest = rest and er = er]
    have "copy_inv (contents h') f' (pump f')" using reads_some(1,2) by simp
    moreover have "y \<notin> set (pooled h)" "{x, y} \<subseteq> {..<allocated h} - set (pooled h)"
      "length (contents h' z) = length (contents h z)" for z
      using f reads_some by (auto simp: client_inv_def)
    ultimately show ?thesis
      using f h reads_some(1-3) owned_after(3,4) [of x y "length buf" er]
      by (auto simp: client_inv_def guarantee_def heap_inv_def)
  next
    case (writes_some x y nr er k m)
    with f h copy_inv_writes_some [of "contents h" f x y nr er k m] show ?thesis
      by (auto simp: client_inv_def guarantee_own)
  next
    case (write_returns x y nr er k ew)
    with f h copy_inv_after_Write [where mem = "contents h" and f = f and ew = ew] owned_after(5,6) [of x y nr er k ew] show ?thesis
      by (auto simp: client_inv_def guarantee_own)
  qed
  then show "heap_inv h' \<and> client_inv h' f'" and "guarantee h (owned (pump f)) h' (owned (pump f'))"
    by blast+
qed

interpretation putters: pool_client "\<lambda>h f h' f'. put_buffer h f = Some (h', f')"
  by unfold_locales (auto simp: client_inv_def heap_inv_def guarantee_def pool_Put_def split: pump.splits)

text \<open>Buffers that the pool drops.\<close>

lemma pool_drop_inv:
  assumes "pool_inv h F"
  shows "pool_inv (pool_drop x h) F"
proof -
  have g: "guarantee h {} (pool_drop x h) {}"
    using set_remove1_subset by (fastforce simp: guarantee_def pool_drop_def)
  have "heap_inv (pool_drop x h)"
    using assms by (auto simp: pool_inv_def heap_inv_def pool_drop_def dest: set_remove1_subset [THEN subsetD])
  with assms client_inv_frame [OF _ g] show ?thesis
    by (simp add: pool_inv_def)
qed

lemma pool_inv_new: "pool_inv new_heap (\<lambda>_. idle_flow)"
  by (simp add: pool_inv_def heap_inv_def new_heap_def client_inv_def idle_flow_def)

end
