(* ===== verification/Forwarding.thy ===== *)
theory Forwarding
  imports Proxy Buffers
begin

text \<open>
  \<open>src/proxy/proxy.go\<close> with the data: what the proxy of the theory \<open>Proxy\<close> writes to its
  connections, byte by byte.

  The state \<open>forwarding\<close> is a state of the proxy together with the shared memory of all copiers,
  the two directions of every connection, the bytes of the proxy protocol header that went to each
  backend, the deadlines that \<open>forceHandshake\<close> sets, the clock, and how often the two timers of the
  metrics were updated. Connections are named by their index.

  A goroutine makes one step at a time and steps interleave freely. The parameters are the peers
  of the proxy, the bytes of a header (\<open>WriteTo\<close> of the package \<open>go-proxyproto\<close>) and
  \<open>ConnectTimeout\<close>. Of deadlines it is used, as documented for \<open>net.Conn\<close>, that no handshake
  succeeds after its deadline.
\<close>


section \<open>The proxy with its data\<close>

datatype direction = ToClient | ToBackend

record forwarding =
  control :: proxy_state
  memory :: heap
  flows :: "nat \<times> direction \<Rightarrow> flow"
  headers :: "nat \<Rightarrow> string"
  deadlines :: "nat \<Rightarrow> int option"
  time :: int
  handshakeTimer :: int
  connTimer :: int

definition forward_start :: "nat \<Rightarrow> bool \<Rightarrow> forwarding" where
  "forward_start n pp =
     \<lparr>control = start n pp, memory = new_heap, flows = (\<lambda>_. idle_flow), headers = (\<lambda>_. []),
      deadlines = (\<lambda>_. None), time = 0, handshakeTimer = 0, connTimer = 0\<rparr>"

text \<open>\<open>fuse\<close>: the copier of a direction, and its destination and source.\<close>

fun copier_of :: "direction \<Rightarrow> stage \<Rightarrow> copier option" where
  "copier_of ToClient (Fusing a b) = Some a"
| "copier_of ToBackend (Fusing a b) = Some b"
| "copier_of dir st = None"

fun copier_ends :: "direction \<Rightarrow> endpoint \<Rightarrow> endpoint \<Rightarrow> endpoint \<times> endpoint" where
  "copier_ends ToClient cl be = (cl, be)"
| "copier_ends ToBackend cl be = (be, cl)"

definition returned :: "flow \<Rightarrow> bool" where
  "returned f \<longleftrightarrow> (case pump f of CopyReturned x err \<Rightarrow> True | CopyReleased err \<Rightarrow> True | _ \<Rightarrow> False)"

definition released :: "flow \<Rightarrow> bool" where
  "released f \<longleftrightarrow> (case pump f of CopyReleased err \<Rightarrow> True | _ \<Rightarrow> False)"

text \<open>
  When the handler of connection \<open>i\<close> may enter a stage. The handshake of a TLS connection succeeds
  before the deadline that was set for it. A copier closes its connections after \<open>io.CopyBuffer\<close>
  has returned, and \<open>fuse\<close> returns after both copiers have put their buffers back and called
  \<open>wg.Done\<close>.
\<close>

definition handler_may :: "forwarding \<Rightarrow> nat \<Rightarrow> conn \<Rightarrow> stage \<Rightarrow> bool" where
  "handler_may s i c st =
     (case st of
        Connecting \<Rightarrow> kind (client c) = TLSConn \<longrightarrow> (\<exists>t. deadlines s i = Some t \<and> time s < t)
      | Fusing a b \<Rightarrow> (a \<noteq> Copying \<longrightarrow> returned (flows s (i, ToClient))) \<and>
          (b \<noteq> Copying \<longrightarrow> returned (flows s (i, ToBackend)))
      | Unregistering \<Rightarrow> released (flows s (i, ToClient)) \<and> released (flows s (i, ToBackend))
      | _ \<Rightarrow> True)"

text \<open>The bytes that reach the backend in a step from \<open>c\<close> to \<open>c'\<close>: all of the header, or a part of it before an error.\<close>

definition header_bytes :: "(proxy_header \<Rightarrow> string) \<Rightarrow> conn \<Rightarrow> conn \<Rightarrow> string \<Rightarrow> bool" where
  "header_bytes enc c c' out \<longleftrightarrow>
     (if stage c = SendingHeader
      then \<exists>h. getProxyProtoHeaderFor (RemoteAddr c) (LocalAddr c) = Value h \<and>
        (if stage c' = Counting then out = enc h else prefix out (enc h))
      else out = [])"

definition handler_move :: "nat \<Rightarrow> delta \<Rightarrow> conn \<Rightarrow> conn \<Rightarrow> string \<Rightarrow> forwarding \<Rightarrow> forwarding" where
  "handler_move i d c c' out s = s\<lparr>
     control := apply_delta d ((control s)\<lparr>conns := (conns (control s))[i := c']\<rparr>),
     headers := (headers s)(i := headers s i @ out),
     deadlines := (if stage c' = Connecting then (deadlines s)(i := None) else deadlines s),
     handshakeTimer := handshakeTimer s + (if stage c = Handshaking \<and> kind (client c) = TLSConn then 1 else 0),
     connTimer := connTimer s + (if stage c' = Finished then 1 else 0)\<rparr>"

inductive forward_step ::
  "peers \<Rightarrow> (proxy_header \<Rightarrow> string) \<Rightarrow> int \<Rightarrow> forwarding \<Rightarrow> forwarding \<Rightarrow> bool"
  for net :: peers and enc :: "proxy_header \<Rightarrow> string" and timeout :: int where
  proxy_moves:
    "proxy_step net (control s) p \<Longrightarrow> take (length (conns (control s))) (conns p) = conns (control s) \<Longrightarrow>
     forward_step net enc timeout s (s\<lparr>control := p\<rparr>)"
| sets_deadline:
    "\<not> panicked (control s) \<Longrightarrow> i < length (conns (control s)) \<Longrightarrow>
     stage (conns (control s) ! i) = Handshaking \<Longrightarrow> kind (client (conns (control s) ! i)) = TLSConn \<Longrightarrow>
     deadlines s i = None \<Longrightarrow>
     forward_step net enc timeout s (s\<lparr>deadlines := (deadlines s)(i := Some (time s + timeout))\<rparr>)"
| handler_moves:
    "\<not> panicked (control s) \<Longrightarrow> i < length (conns (control s)) \<Longrightarrow> conns (control s) ! i = c \<Longrightarrow>
     conn_step net (proxyProtocol (control s)) c d c' \<Longrightarrow> handler_may s i c (stage c') \<Longrightarrow>
     header_bytes enc c c' out \<Longrightarrow> forward_step net enc timeout s (handler_move i d c c' out s)"
| copier_moves:
    "\<not> panicked (control s) \<Longrightarrow> i < length (conns (control s)) \<Longrightarrow> conns (control s) ! i = c \<Longrightarrow>
     copier_of dir (stage c) = Some Copying \<Longrightarrow> backend c = Some be \<Longrightarrow>
     copier_ends dir (client c) be = (dst, src) \<Longrightarrow>
     flow_step dst src (memory s) (flows s (i, dir)) h f \<Longrightarrow>
     forward_step net enc timeout s (s\<lparr>memory := h, flows := (flows s)((i, dir) := f)\<rparr>)"
| copier_puts:
    "\<not> panicked (control s) \<Longrightarrow> i < length (conns (control s)) \<Longrightarrow>
     copier_of dir (stage (conns (control s) ! i)) = Some CopyDone \<Longrightarrow>
     put_buffer (memory s) (flows s (i, dir)) = Some (h, f) \<Longrightarrow>
     forward_step net enc timeout s (s\<lparr>memory := h, flows := (flows s)((i, dir) := f)\<rparr>)"
| pool_drops:
    "forward_step net enc timeout s (s\<lparr>memory := pool_drop x (memory s)\<rparr>)"
| clock_moves:
    "0 < t \<Longrightarrow> forward_step net enc timeout s (s\<lparr>time := time s + t\<rparr>)"

declare forward_step.intros [step_intros]

definition forward_reachable ::
  "peers \<Rightarrow> (proxy_header \<Rightarrow> string) \<Rightarrow> int \<Rightarrow> forwarding \<Rightarrow> forwarding \<Rightarrow> bool" where
  "forward_reachable net enc timeout s s' \<longleftrightarrow> (forward_step net enc timeout)\<^sup>*\<^sup>* s s'"

text \<open>A client connection that the copier from it has closed as a source.\<close>

fun source_closed :: "stage \<Rightarrow> bool" where
  "source_closed (Fusing a b) \<longleftrightarrow> b \<in> {ClosingDst, CopyDone}"
| "source_closed st \<longleftrightarrow> False"

text \<open>What the two ends of a connection have received, and the header that the backend is meant to see first.\<close>

definition client_received :: "forwarding \<Rightarrow> nat \<Rightarrow> string" where
  "client_received s i = sent (flows s (i, ToClient))"

definition backend_received :: "forwarding \<Rightarrow> nat \<Rightarrow> string" where
  "backend_received s i = headers s i @ sent (flows s (i, ToBackend))"

definition client_header :: "(proxy_header \<Rightarrow> string) \<Rightarrow> bool \<Rightarrow> conn \<Rightarrow> string" where
  "client_header enc pp c =
     (if pp then (case getProxyProtoHeaderFor (RemoteAddr c) (LocalAddr c) of Value h \<Rightarrow> enc h | _ \<Rightarrow> []) else [])"


section \<open>Refinement of the proxy\<close>

text \<open>What the theory \<open>Proxy\<close> shows of the states of the proxy holds here.\<close>

lemma forward_step_control:
  assumes "forward_step net enc timeout s s'"
  shows "proxy_step net (control s) (control s') \<or> control s' = control s"
  using assms
proof cases
  case (handler_moves i c d c' out)
  then show ?thesis
    using proxy_step.handler_steps [of "control s" i net d c'] by (simp add: handler_move_def)
qed simp_all

interpretation forwards: simulation "forward_step net enc timeout" "forward_reachable net enc timeout"
  "proxy_step net" "proxy_reachable net" control "\<lambda>s. True" for net enc timeout
  by unfold_locales (simp_all add: forward_reachable_def forward_step_control)

lemma forward_control:
  "forward_reachable net enc timeout (forward_start n pp) s \<Longrightarrow> proxy_reachable net (start n pp) (control s)"
  using forwards.reach_abstract [of net enc timeout "forward_start n pp" s] by (simp add: forward_start_def)


section \<open>Invariants\<close>

definition full_header :: "(proxy_header \<Rightarrow> string) \<Rightarrow> bool \<Rightarrow> conn \<Rightarrow> string \<Rightarrow> bool" where
  "full_header enc pp c hdr \<longleftrightarrow>
     (if pp then \<exists>h. getProxyProtoHeaderFor (RemoteAddr c) (LocalAddr c) = Value h \<and> hdr = enc h else hdr = [])"

definition part_header :: "(proxy_header \<Rightarrow> string) \<Rightarrow> bool \<Rightarrow> conn \<Rightarrow> string \<Rightarrow> bool" where
  "part_header enc pp c hdr \<longleftrightarrow> hdr = [] \<or>
     pp \<and> (\<exists>h. getProxyProtoHeaderFor (RemoteAddr c) (LocalAddr c) = Value h \<and> prefix hdr (enc h))"

fun wire_inv ::
  "(proxy_header \<Rightarrow> string) \<Rightarrow> bool \<Rightarrow> conn \<Rightarrow> flow \<Rightarrow> flow \<Rightarrow> string \<Rightarrow> int option \<Rightarrow> stage \<Rightarrow> bool" where
  "wire_inv enc pp c down up hdr dl Handshaking \<longleftrightarrow> down = idle_flow \<and> up = idle_flow \<and> hdr = []"
| "wire_inv enc pp c down up hdr dl Connecting \<longleftrightarrow> down = idle_flow \<and> up = idle_flow \<and> hdr = [] \<and> dl = None"
| "wire_inv enc pp c down up hdr dl SendingHeader \<longleftrightarrow>
     pp \<and> down = idle_flow \<and> up = idle_flow \<and> hdr = [] \<and> dl = None"
| "wire_inv enc pp c down up hdr dl Counting \<longleftrightarrow>
     down = idle_flow \<and> up = idle_flow \<and> full_header enc pp c hdr \<and> dl = None"
| "wire_inv enc pp c down up hdr dl Registering \<longleftrightarrow>
     down = idle_flow \<and> up = idle_flow \<and> full_header enc pp c hdr \<and> dl = None"
| "wire_inv enc pp c down up hdr dl (Fusing a b) \<longleftrightarrow>
     (a \<noteq> Copying \<longrightarrow> returned down) \<and> (b \<noteq> Copying \<longrightarrow> returned up) \<and> full_header enc pp c hdr \<and> dl = None"
| "wire_inv enc pp c down up hdr dl Unregistering \<longleftrightarrow>
     released down \<and> released up \<and> full_header enc pp c hdr \<and> dl = None"
| "wire_inv enc pp c down up hdr dl _ \<longleftrightarrow>
     released down \<and> released up \<and> full_header enc pp c hdr \<or>
     down = idle_flow \<and> up = idle_flow \<and> part_header enc pp c hdr"

definition wires :: "(proxy_header \<Rightarrow> string) \<Rightarrow> forwarding \<Rightarrow> nat \<Rightarrow> conn \<Rightarrow> bool" where
  "wires enc s i c \<longleftrightarrow> wire_inv enc (proxyProtocol (control s)) c (flows s (i, ToClient)) (flows s (i, ToBackend))
     (headers s i) (deadlines s i) (stage c)"

definition unused :: "forwarding \<Rightarrow> nat \<Rightarrow> bool" where
  "unused s i \<longleftrightarrow> (\<forall>dir. flows s (i, dir) = idle_flow) \<and> headers s i = [] \<and> deadlines s i = None"

definition handshaken :: "conn \<Rightarrow> int" where
  "handshaken c = (if kind (client c) = TLSConn \<and> stage c \<noteq> Handshaking then 1 else 0)"

definition finished :: "conn \<Rightarrow> int" where
  "finished c = (if stage c = Finished then 1 else 0)"

definition forward_inv :: "(proxy_header \<Rightarrow> string) \<Rightarrow> forwarding \<Rightarrow> bool" where
  "forward_inv enc s \<longleftrightarrow> pool_inv (memory s) (flows s) \<and>
     (\<forall>i<length (conns (control s)). wires enc s i (conns (control s) ! i)) \<and>
     (\<forall>i\<ge>length (conns (control s)). unused s i) \<and>
     handshakeTimer s = total handshaken (control s) \<and> connTimer s = total finished (control s)"

lemma forward_inv_pool: "forward_inv enc s \<Longrightarrow> pool_inv (memory s) (flows s)"
  by (simp add: forward_inv_def)

lemma conn_step_wires:
  assumes "conn_step net (proxyProtocol (control s)) c d c'" and "wires enc s i c"
    and "handler_may s i c (stage c')" and "header_bytes enc c c' out"
  shows "wires enc (handler_move i d c c' out s) i c'"
  using assms
  by cases (auto simp: wires_def handler_move_def handler_may_def header_bytes_def full_header_def part_header_def split: if_splits)

lemma conn_step_timers:
  assumes "conn_step net pp c d c'"
  shows "handshaken c' = handshaken c + (if stage c = Handshaking \<and> kind (client c) = TLSConn then 1 else 0)"
    "finished c' = finished c + (if stage c' = Finished then 1 else 0)"
  using assms by (cases; simp add: handshaken_def finished_def Close_conn_def)+

lemma wires_moved:
  assumes "j \<noteq> i"
  shows "wires enc (handler_move i d c c' out s) j x \<longleftrightarrow> wires enc s j x"
    and "unused (handler_move i d c c' out s) j \<longleftrightarrow> unused s j"
  using assms by (simp_all add: wires_def handler_move_def unused_def)

lemma handler_move_inv:
  assumes "forward_inv enc s" and "i < length (conns (control s))" and "conns (control s) ! i = c"
    and "conn_step net (proxyProtocol (control s)) c d c'" and "handler_may s i c (stage c')"
    and "header_bytes enc c c' out"
  shows "forward_inv enc (handler_move i d c c' out s)"
proof -
  let ?s = "handler_move i d c c' out s"
  have cs: "conns (control ?s) = (conns (control s))[i := c']" "memory ?s = memory s" "flows ?s = flows s"
    by (simp_all add: handler_move_def)
  have "wires enc ?s i c'"
    using assms by (intro conn_step_wires) (auto simp: forward_inv_def)
  then have "\<forall>j<length (conns (control ?s)). wires enc ?s j (conns (control ?s) ! j)"
    using assms(1,2) wires_moved(1) by (auto simp: cs nth_list_update forward_inv_def)
  moreover have "\<forall>j\<ge>length (conns (control ?s)). unused ?s j"
    using assms(1,2) wires_moved(2) by (auto simp: cs forward_inv_def)
  moreover have "handshakeTimer ?s = total handshaken (control ?s)" "connTimer ?s = total finished (control ?s)"
    using assms(1-3) conn_step_timers [OF assms(4)]
    by (auto simp: forward_inv_def sum_list_map_update cs) (simp_all add: handler_move_def)
  ultimately show ?thesis
    using assms(1) by (simp add: forward_inv_def cs)
qed

text \<open>Steps of the copiers and of the clock leave the connections alone.\<close>

lemma flow_update_inv:
  assumes "forward_inv enc s" and "i < length (conns (control s))" and "pool_inv h ((flows s)((i, dir) := f))"
    and "copier_of dir (stage (conns (control s) ! i)) \<noteq> None"
    and "copier_of dir (stage (conns (control s) ! i)) \<noteq> Some Copying \<Longrightarrow> returned f"
  shows "forward_inv enc (s\<lparr>memory := h, flows := (flows s)((i, dir) := f)\<rparr>)"
proof -
  obtain a b where st: "stage (conns (control s) ! i) = Fusing a b"
    using assms(4) by (cases "stage (conns (control s) ! i)"; cases dir) auto
  have "wires enc s i (conns (control s) ! i)"
    using assms(1,2) by (simp add: forward_inv_def)
  then have "wires enc (s\<lparr>memory := h, flows := (flows s)((i, dir) := f)\<rparr>) i (conns (control s) ! i)"
    using st assms(5) by (cases dir) (auto simp: wires_def)
  then show ?thesis
    using assms(1-3) by (auto simp: forward_inv_def unused_def wires_def)
qed

text \<open>The steps of the proxy outside handlers: at most a new connection appears.\<close>

lemma proxy_step_others:
  assumes "proxy_step net p p'" and "take (length (conns p)) (conns p') = conns p"
  shows "proxyProtocol p' = proxyProtocol p \<and>
    (conns p' = conns p \<or> (\<exists>k certs remote local. conns p' = conns p @ [new_conn k certs remote local]))"
  using assms by cases (auto dest: Shutdown_keeps(1,6))

lemma forward_inv_step:
  assumes "forward_step net enc timeout s s'" and "forward_inv enc s"
  shows "forward_inv enc s'"
  using assms
proof cases
  case (handler_moves i c d c' out)
  then show ?thesis using handler_move_inv assms(2) by blast
next
  case (copier_moves i c dir be dst src h f)
  then show ?thesis
    using assms(2) copiers.step_pool_inv [where F = "flows s", OF copier_moves(8) forward_inv_pool]
    by (auto intro!: flow_update_inv)
next
  case (copier_puts i dir h f)
  then show ?thesis
    using assms(2) putters.step_pool_inv [where F = "flows s", OF copier_puts(5) forward_inv_pool]
    by (auto intro!: flow_update_inv simp: returned_def split: pump.splits)
next
  case (pool_drops x)
  then show ?thesis
    using assms(2) by (simp add: forward_inv_def unused_def wires_def pool_drop_inv)
next
  case (sets_deadline i)
  then show ?thesis
    using assms(2) by (auto simp: forward_inv_def unused_def wires_def)
next
  case (proxy_moves p)
  from proxy_step_others [OF proxy_moves(2,3)] have pp: "proxyProtocol p = proxyProtocol (control s)"
    and "conns p = conns (control s) \<or> (\<exists>k certs remote local. conns p = conns (control s) @ [new_conn k certs remote local])"
    by auto
  from this(2) show ?thesis
  proof
    assume "conns p = conns (control s)"
    with pp assms(2) proxy_moves(1) show ?thesis by (simp add: forward_inv_def unused_def wires_def)
  next
    assume "\<exists>k certs remote local. conns p = conns (control s) @ [new_conn k certs remote local]"
    then obtain c where c: "conns p = conns (control s) @ [c]" "stage c = Handshaking"
      by (auto simp: new_conn_def)
    have "unused s (length (conns (control s)))" using assms(2) by (simp add: forward_inv_def)
    then have "wires enc s' (length (conns (control s))) c"
      using c(2) proxy_moves(1) by (simp add: wires_def unused_def)
    with c pp assms(2) proxy_moves(1) show ?thesis
      by (auto simp: forward_inv_def unused_def wires_def nth_append less_Suc_eq handshaken_def finished_def)
  qed
qed (simp add: forward_inv_def unused_def wires_def)

lemma forward_start_inv: "forward_inv enc (forward_start n pp)"
  by (simp add: forward_inv_def forward_start_def pool_inv_new unused_def)

lemma reachable_forward_inv:
  assumes "forward_reachable net enc timeout (forward_start n pp) s"
  shows "forward_inv enc s"
  using assms forward_start_inv forward_inv_step by (rule forwards.detailed.invariant)

lemma reachable_wires:
  assumes "forward_reachable net enc timeout (forward_start n pp) s" and "i < length (conns (control s))"
  shows "wires enc s i (conns (control s) ! i)" "conn_inv net (conns (control s) ! i)" "proxyProtocol (control s) = pp"
  using reachable_forward_inv [OF assms(1)] reachable_counter_inv [OF forward_control [OF assms(1)]]
    reachable_proxyProtocol [OF forward_control [OF assms(1)]] assms(2)
  by (simp_all add: forward_inv_def counter_inv_def list_all_length)

lemma reachable_client_inv:
  assumes "forward_reachable net enc timeout (forward_start n pp) s"
  shows "client_inv (memory s) (flows s k)"
  using reachable_forward_inv [OF assms] by (cases k) (simp add: forward_inv_def pool_inv_def)

lemma sent_prefix: "client_inv h f \<Longrightarrow> prefix (sent f) (read_bytes f)"
  using copy_inv_prefix by (auto simp: client_inv_def)

text \<open>A copier runs, and a header is sent, only with a backend and for a peer whose handshake was accepted.\<close>

definition auth_inv :: "peers \<Rightarrow> forwarding \<Rightarrow> bool" where
  "auth_inv net s \<longleftrightarrow> (\<forall>i dir. i < length (conns (control s)) \<longrightarrow> flows s (i, dir) \<noteq> idle_flow \<or> headers s i \<noteq> [] \<longrightarrow>
     backend (conns (control s) ! i) \<noteq> None \<and>
     (kind (client (conns (control s) ! i)) = TLSConn \<longrightarrow> handshake_accepts net (peer (conns (control s) ! i))))"

lemma conn_step_keeps:
  assumes "conn_step net pp c d c'"
  shows "kind (client c') = kind (client c)" "peer c' = peer c" "RemoteAddr c' = RemoteAddr c" "LocalAddr c' = LocalAddr c"
  using assms by (cases; simp add: Close_conn_def)+

lemma conn_step_backend: "conn_step net pp c d c' \<Longrightarrow> backend c \<noteq> None \<Longrightarrow> backend c' \<noteq> None"
  by (erule conn_stepE) simp_all

lemma copying_passed: "copier_of dir st = Some x \<Longrightarrow> passed_handshake st"
  by (cases st; cases dir) (auto simp: passed_handshake_def)

lemma auth_inv_flow:
  assumes "auth_inv net s" and "counter_inv net (control s)" and "i < length (conns (control s))"
    and "copier_of dir (stage (conns (control s) ! i)) = Some x"
  shows "auth_inv net (s\<lparr>memory := h, flows := (flows s)((i, dir) := f)\<rparr>)"
proof -
  have "conn_inv net (conns (control s) ! i)"
    using assms(2,3) by (simp add: counter_inv_def list_all_length)
  then have "backend (conns (control s) ! i) \<noteq> None \<and>
      (kind (client (conns (control s) ! i)) = TLSConn \<longrightarrow> handshake_accepts net (peer (conns (control s) ! i)))"
    using copying_passed [OF assms(4)] assms(4) by (auto simp: conn_inv_def)
  with assms(1) show ?thesis by (auto simp: auth_inv_def)
qed

lemma auth_inv_step:
  assumes "forward_step net enc timeout s s'" and "auth_inv net s" and "counter_inv net (control s)"
    and "forward_inv enc s"
  shows "auth_inv net s'"
  using assms(1)
proof cases
  case (proxy_moves p)
  have "conns p = conns (control s) \<or> (\<exists>c. conns p = conns (control s) @ [c])"
    using proxy_step_others [OF proxy_moves(2,3)] by auto
  moreover have "flows s (length (conns (control s)), dir) = idle_flow" "headers s (length (conns (control s))) = []" for dir
    using assms(4) by (simp_all add: forward_inv_def unused_def)
  ultimately show ?thesis
    using assms(2) proxy_moves(1) by (auto simp: auth_inv_def nth_append less_Suc_eq) blast+
next
  case (handler_moves i c d c' out)
  have "backend c \<noteq> None \<and> (kind (client c) = TLSConn \<longrightarrow> handshake_accepts net (peer c))" if "out \<noteq> []"
  proof -
    have "stage c = SendingHeader" using that handler_moves(7) by (simp add: header_bytes_def split: if_splits)
    then show ?thesis
      using assms(3) handler_moves(3,4)
      by (auto simp: counter_inv_def list_all_length conn_inv_def passed_handshake_def)
  qed
  with handler_moves(1-4) conn_step_keeps [OF handler_moves(5)] conn_step_backend [OF handler_moves(5)] assms(2) show ?thesis
    by (auto simp: auth_inv_def handler_move_def nth_list_update)
next
  case (copier_moves i c dir be dst src h f)
  then show ?thesis using auth_inv_flow [OF assms(2,3)] by blast
next
  case (copier_puts i dir h f)
  then show ?thesis using auth_inv_flow [OF assms(2,3)] by blast
qed (use assms(2) in \<open>simp_all add: auth_inv_def\<close>)

lemma reachable_auth_inv:
  assumes "forward_reachable net enc timeout (forward_start n pp) s"
  shows "auth_inv net s"
proof -
  have "auth_inv net s \<and> counter_inv net (control s) \<and> forward_inv enc s"
    using assms
  proof (rule forwards.detailed.invariant)
    show "auth_inv net (forward_start n pp) \<and> counter_inv net (control (forward_start n pp)) \<and>
        forward_inv enc (forward_start n pp)"
      by (simp add: forward_start_inv) (simp add: auth_inv_def forward_start_def start_invs)
  next
    fix x y assume xy: "forward_step net enc timeout x y"
      and x: "auth_inv net x \<and> counter_inv net (control x) \<and> forward_inv enc x"
    have "counter_inv net (control y)"
      using forward_step_control [OF xy] counter_inv_step [of net "control x" "control y"] x by auto
    with xy x show "auth_inv net y \<and> counter_inv net (control y) \<and> forward_inv enc y"
      using auth_inv_step forward_inv_step by blast
  qed
  then show ?thesis by blast
qed

lemma carried_data:
  "client_received s i \<noteq> [] \<or> backend_received s i \<noteq> [] \<Longrightarrow> (\<exists>dir. flows s (i, dir) \<noteq> idle_flow) \<or> headers s i \<noteq> []"
  by (auto simp: client_received_def backend_received_def idle_flow_def)

lemma reachable_data_backend:
  assumes "forward_reachable net enc timeout (forward_start n pp) s" and "i < length (conns (control s))"
    and "client_received s i \<noteq> [] \<or> backend_received s i \<noteq> []"
  shows "\<exists>e. backend (conns (control s) ! i) = Some e \<and> dial_returns net (kind e) (backend_peer (conns (control s) ! i))"
proof -
  have "backend (conns (control s) ! i) \<noteq> None"
    using reachable_auth_inv [OF assms(1)] carried_data [OF assms(3)] assms(2) by (auto simp: auth_inv_def)
  then show ?thesis using reachable_wires(2) [OF assms(1,2)] by (auto simp: conn_inv_def)
qed

lemma reachable_peer_accepted:
  assumes "forward_reachable net enc timeout (forward_start n pp) s" and "i < length (conns (control s))"
    and "kind (client (conns (control s) ! i)) = TLSConn"
    and "passed_handshake (stage (conns (control s) ! i)) \<or> client_received s i \<noteq> [] \<or> backend_received s i \<noteq> []"
  shows "handshake_accepts net (peer (conns (control s) ! i))"
proof (cases "passed_handshake (stage (conns (control s) ! i))")
  case True
  then show ?thesis using reachable_wires(2) [OF assms(1,2)] assms(3) by (simp add: conn_inv_def)
next
  case False
  with assms(4) carried_data have "(\<exists>dir. flows s (i, dir) \<noteq> idle_flow) \<or> headers s i \<noteq> []" by blast
  then show ?thesis using reachable_auth_inv [OF assms(1)] assms(2,3) by (auto simp: auth_inv_def)
qed

lemma header_cases:
  "full_header enc pp c hdr \<Longrightarrow> hdr = client_header enc pp c"
  "part_header enc pp c hdr \<Longrightarrow> prefix hdr (client_header enc pp c)"
  by (auto simp: full_header_def part_header_def client_header_def split: if_splits)

lemma wires_header:
  assumes "wires enc s i c"
  shows "headers s i = client_header enc (proxyProtocol (control s)) c \<or>
    prefix (headers s i) (client_header enc (proxyProtocol (control s)) c) \<and> flows s (i, ToBackend) = idle_flow"
  using assms header_cases by (cases "stage c") (auto simp: wires_def)


section \<open>Sample runs\<close>

text \<open>Runs with one connection: what its parts look like in the state reached. The peers let it through.\<close>

definition friendly :: "peers \<Rightarrow> int \<Rightarrow> bool" where
  "friendly net timeout \<longleftrightarrow> 0 < timeout \<and> sample_peers net \<and> handshake_accepts net [''cert''] \<and> dial_returns net TCPConn []"

lemma friendly_any_peers [simp]: "friendly any_peers 10"
  by (simp add: friendly_def)

lemma sample_header [simp]:
  "client_header (\<lambda>_. ''PROXY'') True sample_conn = ''PROXY''" "client_header enc False c = []"
  by (simp_all add: client_header_def getProxyProtoHeaderFor_def sample_addr_def sample_conn_def new_conn_def)

definition at_work ::
  "(proxy_header \<Rightarrow> string) \<Rightarrow> int \<Rightarrow> peers \<Rightarrow> bool \<Rightarrow> conn \<Rightarrow> heap \<Rightarrow> flow \<Rightarrow> string \<Rightarrow> int option \<Rightarrow> forwarding \<Rightarrow> bool" where
  "at_work enc timeout net pp c h up hdr dl s \<longleftrightarrow>
     forward_reachable net enc timeout (forward_start 1 pp) s \<and> conns (control s) = [c] \<and>
     \<not> panicked (control s) \<and> \<not> quit (control s) \<and> shutdowns (control s) = [Idle] \<and>
     proxyProtocol (control s) = pp \<and> 1 \<le> handlers (control s) \<and> memory s = h \<and>
     flows s (0, ToBackend) = up \<and> flows s (0, ToClient) = idle_flow \<and> headers s 0 = hdr \<and>
     deadlines s 0 = dl \<and> time s = 0"

lemma at_work_accepted:
  assumes "friendly net timeout"
  shows "\<exists>s. at_work enc timeout net pp sample_conn new_heap idle_flow [] None s"
proof -
  let ?s = "(forward_start 1 pp)\<lparr>control := accepted (start 1 pp)\<rparr>"
  have "proxy_step net (start 1 pp) (accepted (start 1 pp))"
    unfolding accepted_def sample_conn_def by (rule proxy_step.accepts_conn) (use assms in \<open>simp_all add: friendly_def sample_peers_def\<close>)
  then have "forward_step net enc timeout (forward_start 1 pp) ?s"
    by (intro forward_step.proxy_moves) (simp_all add: forward_start_def)
  from forwards.detailed.reach_step [OF this forwards.detailed.reach_refl] show ?thesis
    by (intro exI [of _ ?s]) (simp add: at_work_def accepted_def forward_start_def)
qed

lemma at_work_deadline:
  assumes "friendly net timeout"
  shows "\<exists>s. at_work enc timeout net pp sample_conn new_heap idle_flow [] (Some timeout) s"
proof -
  obtain s where s: "at_work enc timeout net pp sample_conn new_heap idle_flow [] None s" using at_work_accepted [OF assms] ..
  then have "forward_step net enc timeout s (s\<lparr>deadlines := (deadlines s)(0 := Some (time s + timeout))\<rparr>)"
    by (intro forward_step.sets_deadline) (simp_all add: at_work_def sample_conn_def new_conn_def new_endpoint_def)
  with s show ?thesis
    by (intro exI [of _ "s\<lparr>deadlines := (deadlines s)(0 := Some (time s + timeout))\<rparr>"])
      (auto simp: at_work_def intro: forwards.detailed.reach_step)
qed

lemma at_work_handler:
  assumes "\<exists>s. at_work enc timeout net pp c h up hdr dl s" and "conn_step net pp c d c'" and "0 \<le> d_handlers d"
    and "header_bytes enc c c' out"
    and "\<And>s. at_work enc timeout net pp c h up hdr dl s \<Longrightarrow> handler_may s 0 c (stage c')"
  shows "\<exists>s. at_work enc timeout net pp c' h up (hdr @ out) (if stage c' = Connecting then None else dl) s"
proof -
  obtain s where s: "at_work enc timeout net pp c h up hdr dl s" using assms(1) ..
  then have "forward_step net enc timeout s (handler_move 0 d c c' out s)"
    using assms by (intro forward_step.handler_moves) (auto simp: at_work_def)
  with s assms(3) show ?thesis
    by (intro exI [of _ "handler_move 0 d c c' out s"])
      (auto simp: at_work_def handler_move_def intro: forwards.detailed.reach_step)
qed

lemma at_work_copier:
  assumes "\<exists>s. at_work enc timeout net pp c h up hdr dl s" and "copier_of ToBackend (stage c) = Some Copying" and "backend c = Some be"
    and "flow_step be (client c) h up h' up'"
  shows "\<exists>s. at_work enc timeout net pp c h' up' hdr dl s"
proof -
  obtain s where s: "at_work enc timeout net pp c h up hdr dl s" using assms(1) ..
  let ?s = "s\<lparr>memory := h', flows := (flows s)((0, ToBackend) := up')\<rparr>"
  have "forward_step net enc timeout s ?s"
    using s assms by (intro forward_step.copier_moves [of s 0 c ToBackend be]) (auto simp: at_work_def)
  with s show ?thesis
    by (intro exI [of _ ?s]) (auto simp: at_work_def intro: forwards.detailed.reach_step)
qed

text \<open>A TLS client that sends \<open>ping\<close> to a TCP backend, behind a header if the proxy protocol is used, and ends its stream.\<close>

abbreviation sample_backend :: "endpoint option" where
  "sample_backend \<equiv> Some (new_endpoint TCPConn)"

lemma at_work_fused:
  assumes "friendly net timeout" and "hdr = client_header enc pp sample_conn"
  shows "\<exists>s. at_work enc timeout net pp (at_stage (Fusing Copying Copying) sample_backend) new_heap idle_flow hdr None s"
proof -
  have h: "\<exists>h. getProxyProtoHeaderFor sample_addr sample_addr = Value h"
    by (simp add: getProxyProtoHeaderFor_def sample_addr_def)
  have 1: "\<exists>s. at_work enc timeout net pp (at_stage Connecting None) new_heap idle_flow [] None s"
    using at_work_handler [OF at_work_deadline [OF assms(1), of enc pp] handshake_passes_step [of net pp], of "[]"] assms(1)
    by (simp add: header_bytes_def sample_conn_def new_conn_def handler_may_def at_work_def no_delta_def friendly_def)
  have 2: "\<exists>s. at_work enc timeout net pp (at_stage (if pp then SendingHeader else Counting) sample_backend) new_heap idle_flow [] None s"
    using at_work_handler [OF 1 conn_step.dials [where k = TCPConn and certs = "[]"], of "[]"] assms(1)
    by (simp add: friendly_def header_bytes_def handler_may_def no_delta_def)
  obtain hd where "getProxyProtoHeaderFor sample_addr sample_addr = Value hd" using h ..
  then have 3: "\<exists>s. at_work enc timeout net pp (at_stage Counting sample_backend) new_heap idle_flow hdr None s"
    using at_work_handler [OF 2 conn_step.sends_header [where err = None], of hd "enc hd"] 2 assms(2)
    by (cases pp) (simp_all add: header_bytes_def handler_may_def no_delta_def client_header_def sample_conn_def new_conn_def)
  have 4: "\<exists>s. at_work enc timeout net pp (at_stage Registering sample_backend) new_heap idle_flow hdr None s"
    using at_work_handler [OF 3 conn_step.counts, of "[]"] by (simp add: header_bytes_def handler_may_def no_delta_def)
  show ?thesis
    using at_work_handler [OF 4 conn_step.registers, of "[]"] by (simp add: header_bytes_def handler_may_def no_delta_def)
qed

definition sample_heap :: heap where
  "sample_heap = (snd (make_bytes 4 (snd (bufferPool_New new_heap))))
     \<lparr>contents := (contents (snd (make_bytes 4 (snd (bufferPool_New new_heap)))))(1 := ''ping'')\<rparr>"

definition sample_flow :: flow where
  "sample_flow = \<lparr>pump = CopyReturned 0 None, reads = [(''ping'', EOF)], writes = [(4, None)], sent = ''ping''\<rparr>"

lemma at_work_copied:
  assumes "friendly net timeout" and "hdr = client_header enc pp sample_conn"
  shows "\<exists>s. at_work enc timeout net pp (at_stage (Fusing Copying Copying) sample_backend) sample_heap sample_flow hdr None s"
proof -
  let ?c = "at_stage (Fusing Copying Copying) sample_backend"
  let ?h = "snd (bufferPool_New new_heap)" and ?f = "idle_flow\<lparr>pump := Got 0\<rparr>"
  have go: "\<exists>s. at_work enc timeout net pp ?c h' up' hdr None s"
    if "\<exists>s. at_work enc timeout net pp ?c h up hdr None s" "flow_step (new_endpoint TCPConn) (new_endpoint TLSConn) h up h' up'" for h up h' up'
    using at_work_copier [OF that(1), of "new_endpoint TCPConn"] that(2) by simp
  have 1: "\<exists>s. at_work enc timeout net pp ?c ?h ?f hdr None s"
    by (rule go [OF at_work_fused [OF assms]], rule flow_step.gets_buffer)
      (simp_all add: idle_flow_def bufferPool_New_def make_bytes_def new_heap_def pool_Get.intros(2))
  let ?h2 = "snd (make_bytes 4 ?h)" and ?f2 = "?f\<lparr>pump := Reading 0 1\<rparr>"
  have 2: "\<exists>s. at_work enc timeout net pp ?c ?h2 ?f2 hdr None s"
    by (rule go [OF 1], rule flow_step.copies_with_ReadFrom [where n = 4])
      (simp_all add: has_ReadFrom_def new_endpoint_def bufferPool_New_def make_bytes_def new_heap_def)
  let ?f3 = "\<lparr>pump = Writing 0 1 4 EOF 0, reads = [(''ping'', EOF)], writes = [], sent = []\<rparr>"
  have "flow_step (new_endpoint TCPConn) (new_endpoint TLSConn) ?h2 ?f2 sample_heap ?f3"
    using flow_step.reads_some [of ?f2 0 1 "''ping''" "[]" ?h2 "new_endpoint TLSConn" "new_endpoint TCPConn" EOF]
    by (simp add: sample_heap_def new_endpoint_def after_Read_def idle_flow_def bufferPool_New_def make_bytes_def new_heap_def
        eval_nat_numeral)
  from go [OF 2 this] have 3: "\<exists>s. at_work enc timeout net pp ?c sample_heap ?f3 hdr None s" .
  let ?f4 = "\<lparr>pump = Writing 0 1 4 EOF 4, reads = [(''ping'', EOF)], writes = [], sent = ''ping''\<rparr>"
  have "flow_step (new_endpoint TCPConn) (new_endpoint TLSConn) sample_heap ?f3 sample_heap ?f4"
    using flow_step.writes_some [of ?f3 0 1 4 EOF 0 4 "new_endpoint TCPConn" "new_endpoint TLSConn" sample_heap]
    by (simp add: sample_heap_def new_endpoint_def)
  from go [OF 3 this] have 4: "\<exists>s. at_work enc timeout net pp ?c sample_heap ?f4 hdr None s" .
  have "flow_step (new_endpoint TCPConn) (new_endpoint TLSConn) sample_heap ?f4 sample_heap sample_flow"
    using flow_step.write_returns [of ?f4 0 1 4 EOF 4 "new_endpoint TCPConn" "new_endpoint TLSConn" sample_heap None]
    by (simp add: sample_flow_def after_Write_def next_read_def)
  from go [OF 4 this] show ?thesis .
qed

text \<open>The copier has then closed the client connection as its source.\<close>

lemma at_work_half_closed:
  assumes "friendly net timeout" and "hdr = client_header enc True sample_conn"
  shows "\<exists>c s. at_work enc timeout net True c sample_heap sample_flow hdr None s \<and> source_closed (stage c) \<and> kind (client c) = TLSConn"
proof -
  have ret: "returned (flows s (0, ToBackend))" if "at_work enc timeout net True c sample_heap sample_flow hdr None s" for c s
    using that by (simp add: at_work_def returned_def sample_flow_def)
  have 1: "\<exists>s. at_work enc timeout net True (at_stage (Fusing Copying ClosingSrc) sample_backend) sample_heap sample_flow hdr None s"
    using at_work_handler [OF at_work_copied [OF assms] conn_step.copied_to_backend, of Copying "[]"] ret
    by (simp add: header_bytes_def handler_may_def no_delta_def)
  let ?c = "(at_stage (Fusing Copying ClosingDst) sample_backend)\<lparr>client := close_source (new_endpoint TLSConn)\<rparr>"
  have "\<exists>s. at_work enc timeout net True ?c sample_heap sample_flow hdr None s"
    using at_work_handler [OF 1 conn_step.closes_client_source, of Copying "[]"] ret
    by (simp add: header_bytes_def handler_may_def no_delta_def at_stage_def sample_conn_def new_conn_def)
  then show ?thesis by (intro exI [of _ ?c]) (auto simp: new_endpoint_def)
qed


section \<open>Properties\<close>

text \<open>
  C3. Streams stay apart. Whatever the interleaving of accepts, handlers, copiers and the shared
  buffer pool, every connection keeps its own two streams: the client has received a prefix of
  the bytes that were read from its own backend, and the backend a prefix of the proxy protocol
  header of its own client followed by the bytes that were read from that client. No byte of
  another connection, no stale byte of a reused buffer and no byte of a connection whose TLS
  handshake was not accepted reaches any of them.
\<close>

theorem streams_stay_apart:
  assumes "forward_reachable net enc timeout (forward_start n pp) s" and "i < length (conns (control s))"
    and "conns (control s) ! i = c"
  shows "prefix (client_received s i) (read_bytes (flows s (i, ToClient))) \<and>
    prefix (backend_received s i) (client_header enc pp c @ read_bytes (flows s (i, ToBackend))) \<and>
    (kind (client c) = TLSConn \<and> (client_received s i \<noteq> [] \<or> backend_received s i \<noteq> []) \<longrightarrow>
       handshake_accepts net (peer c))"
proof (intro conjI impI)
  note up = sent_prefix [OF reachable_client_inv [OF assms(1), of "(i, ToBackend)"]]
  note w = reachable_wires [OF assms(1,2)]
  show "prefix (client_received s i) (read_bytes (flows s (i, ToClient)))"
    unfolding client_received_def by (rule sent_prefix [OF reachable_client_inv [OF assms(1)]])
  show "prefix (backend_received s i) (client_header enc pp c @ read_bytes (flows s (i, ToBackend)))"
    using wires_header [OF w(1)] up w(3) assms(3) by (auto simp: backend_received_def idle_flow_def)
  assume "kind (client c) = TLSConn \<and> (client_received s i \<noteq> [] \<or> backend_received s i \<noteq> [])"
  then show "handshake_accepts net (peer c)"
    using reachable_peer_accepted [OF assms(1,2)] assms(3) by blast
qed

theorem streams_stay_apart_witness:
  "\<exists>s. forward_reachable any_peers (\<lambda>_. ''PROXY'') 10 (forward_start 1 True) s \<and>
     backend_received s 0 = ''PROXYping'' \<and> prefix ''PROXYping'' (''PROXY'' @ read_bytes (flows s (0, ToBackend)))"
proof -
  obtain s where s: "at_work (\<lambda>_. ''PROXY'') 10 any_peers True (at_stage (Fusing Copying Copying) sample_backend) sample_heap sample_flow ''PROXY'' None s"
    using at_work_copied [OF friendly_any_peers, of "''PROXY''" "\<lambda>_. ''PROXY''" True] by auto
  then have "client_header (\<lambda>_. ''PROXY'') True (conns (control s) ! 0) = ''PROXY''"
    by (simp add: at_work_def client_header_def getProxyProtoHeaderFor_def sample_addr_def)
  with s streams_stay_apart [of any_peers "\<lambda>_. ''PROXY''" 10 1 True s 0] show ?thesis
    by (intro exI [of _ s]) (simp add: at_work_def backend_received_def sample_flow_def)
qed

text \<open>
  C8. Every copier does what \<open>io.CopyBuffer\<close> specifies, although it shares its buffers with all
  others: when the call has returned, its error and the bytes at the destination are those of the
  function \<open>CopyBuffer\<close> on the results of its calls of \<open>Read\<close> and \<open>Write\<close>; without an error, all
  bytes up to the end of the source have been passed on.
\<close>

theorem copier_refines_CopyBuffer:
  assumes "forward_reachable net enc timeout (forward_start n pp) s"
    and "pump (flows s (i, dir)) = CopyReturned x err \<or> pump (flows s (i, dir)) = CopyReleased err"
  shows "CopyBuffer (reads (flows s (i, dir))) (writes (flows s (i, dir))) [] = (sent (flows s (i, dir)), Some err) \<and>
    (err = None \<longrightarrow> sent (flows s (i, dir)) = read_bytes (flows s (i, dir)) \<and>
       (\<exists>before buf. reads (flows s (i, dir)) = before @ [(buf, EOF)]))"
proof -
  let ?f = "flows s (i, dir)"
  have "copy_inv (contents (memory s)) ?f (pump ?f)"
    using reachable_client_inv [OF assms(1)] by (simp add: client_inv_def)
  with assms(2) have "CopyBuffer (reads ?f) (writes ?f) [] = (sent ?f, Some err)"
      "list_all (\<lambda>(_, e). e = More) (butlast (reads ?f))"
    by auto
  with copy_inv_complete [of ?f] show ?thesis by auto
qed

theorem copier_refines_CopyBuffer_witness:
  "\<exists>s. forward_reachable any_peers (\<lambda>_. ''PROXY'') 10 (forward_start 1 True) s \<and>
     pump (flows s (0, ToBackend)) = CopyReturned 0 None \<and> sent (flows s (0, ToBackend)) = ''ping'' \<and>
     CopyBuffer (reads (flows s (0, ToBackend))) (writes (flows s (0, ToBackend))) [] = (''ping'', Some None)"
proof -
  obtain s where s: "at_work (\<lambda>_. ''PROXY'') 10 any_peers True (at_stage (Fusing Copying Copying) sample_backend) sample_heap sample_flow ''PROXY'' None s"
    using at_work_copied [OF friendly_any_peers, of "''PROXY''" "\<lambda>_. ''PROXY''" True] by auto
  with copier_refines_CopyBuffer [of any_peers "\<lambda>_. ''PROXY''" 10 1 True s 0 ToBackend 0 None] show ?thesis
    by (intro exI [of _ s]) (simp add: at_work_def sample_flow_def)
qed

text \<open>
  C9. The buffer pool is used safely: no buffer is ever in the hands of two copiers, or in the
  hands of a copier and in the pool, or twice in the pool; all buffers of the pool have 65536
  bytes; and a connection that is no longer fused holds none.
\<close>

theorem buffers_in_one_hand:
  assumes "forward_reachable net enc timeout (forward_start n pp) s"
  shows "((i, dir) \<noteq> (j, dir') \<longrightarrow> owned (pump (flows s (i, dir))) \<inter> owned (pump (flows s (j, dir'))) = {}) \<and>
    owned (pump (flows s (i, dir))) \<inter> set (pooled (memory s)) = {} \<and> distinct (pooled (memory s)) \<and>
    (\<forall>x\<in>set (pooled (memory s)) \<union> held (pump (flows s (i, dir))). length (contents (memory s) x) = 65536) \<and>
    (i < length (conns (control s)) \<and> copier_of dir (stage (conns (control s) ! i)) = None \<longrightarrow>
       owned (pump (flows s (i, dir))) = {})"
proof (intro conjI impI)
  note inv = reachable_forward_inv [OF assms]
  note pool = forward_inv_pool [OF inv]
  show "owned (pump (flows s (i, dir))) \<inter> owned (pump (flows s (j, dir'))) = {}" if "(i, dir) \<noteq> (j, dir')"
    using pool that by (auto simp: pool_inv_def)
  show "owned (pump (flows s (i, dir))) \<inter> set (pooled (memory s)) = {}"
    using reachable_client_inv [OF assms, of "(i, dir)"] by (auto simp: client_inv_def)
  show "distinct (pooled (memory s))"
    using pool by (simp add: pool_inv_def heap_inv_def)
  show "\<forall>x\<in>set (pooled (memory s)) \<union> held (pump (flows s (i, dir))). length (contents (memory s) x) = 65536"
    using pool reachable_client_inv [OF assms, of "(i, dir)"]
    by (auto simp: pool_inv_def heap_inv_def client_inv_def buffer_size_def)
  assume i: "i < length (conns (control s)) \<and> copier_of dir (stage (conns (control s) ! i)) = None"
  then have "wires enc s i (conns (control s) ! i)"
    using reachable_wires(1) [OF assms] by blast
  with i show "owned (pump (flows s (i, dir))) = {}"
    by (cases dir; cases "stage (conns (control s) ! i)")
      (auto simp: wires_def idle_flow_def released_def split: pump.splits)
qed

theorem buffers_in_one_hand_witness:
  "\<exists>s. forward_reachable any_peers (\<lambda>_. ''PROXY'') 10 (forward_start 1 True) s \<and>
     owned (pump (flows s (0, ToBackend))) = {0} \<and> 0 \<notin> set (pooled (memory s)) \<and> length (contents (memory s) 0) = 65536"
proof -
  obtain s where s: "at_work (\<lambda>_. ''PROXY'') 10 any_peers True (at_stage (Fusing Copying Copying) sample_backend) sample_heap sample_flow ''PROXY'' None s"
    using at_work_copied [OF friendly_any_peers, of "''PROXY''" "\<lambda>_. ''PROXY''" True] by auto
  with buffers_in_one_hand [of any_peers "\<lambda>_. ''PROXY''" 10 1 True s 0 ToBackend 0 ToClient] show ?thesis
    by (intro exI [of _ s]) (simp add: at_work_def sample_flow_def)
qed

text \<open>How a connection changes in one step.\<close>

lemma forward_step_conn:
  assumes "forward_step net enc timeout s s'" and "i < length (conns (control s))"
  shows "i < length (conns (control s')) \<and>
    (conns (control s') ! i = conns (control s) ! i \<or>
     (\<exists>d out. conn_step net (proxyProtocol (control s)) (conns (control s) ! i) d (conns (control s') ! i) \<and>
        handler_may s i (conns (control s) ! i) (stage (conns (control s') ! i)) \<and>
        s' = handler_move i d (conns (control s) ! i) (conns (control s') ! i) out s))"
  using assms(1)
proof cases
  case (proxy_moves p)
  then show ?thesis
    using proxy_step_others [OF proxy_moves(2,3)] assms(2) by (auto simp: nth_append)
next
  case (handler_moves j c d c' out)
  then show ?thesis
    using assms(2) by (cases "j = i") (auto simp: handler_move_def)
qed (use assms(2) in simp_all)

text \<open>Copiers leave the directions of other connections, and directions that do not copy, alone.\<close>

lemma forward_step_flow:
  assumes "forward_step net enc timeout s s'" and "copier_of dir (stage (conns (control s) ! i)) = None"
  shows "flows s' (i, dir) = flows s (i, dir)"
  using assms by cases (auto simp: handler_move_def)

lemma forward_step_header:
  assumes "forward_step net enc timeout s s'" and "stage (conns (control s) ! i) \<noteq> SendingHeader"
  shows "headers s' i = headers s i"
  using assms by cases (auto simp: handler_move_def header_bytes_def)

lemma forward_step_deadline:
  assumes "forward_step net enc timeout s s'" and "deadlines s i = Some t"
  shows "time s \<le> time s' \<and> (deadlines s' i = Some t \<or> stage (conns (control s') ! i) = Connecting)"
  using assms
proof cases
  case (handler_moves j c d c' out)
  then show ?thesis
    using assms(2) by (cases "j = i") (auto simp: handler_move_def)
qed (use assms(2) in auto)

text \<open>A connection whose handshake has missed its deadline, or that has failed before any data.\<close>

definition expired :: "nat \<Rightarrow> int \<Rightarrow> forwarding \<Rightarrow> bool" where
  "expired i t s \<longleftrightarrow> i < length (conns (control s)) \<and> kind (client (conns (control s) ! i)) = TLSConn \<and>
     (stage (conns (control s) ! i) = Handshaking \<and> deadlines s i = Some t \<and> t \<le> time s \<or>
      stage (conns (control s) ! i) \<in> {Decrementing, ClosingClient, Finished}) \<and>
     (\<forall>dir. flows s (i, dir) = idle_flow) \<and> headers s i = []"

lemma expired_step:
  assumes xy: "forward_step net enc timeout x y" and x: "expired i t x"
  shows "expired i t y"
proof -
  let ?c = "conns (control x) ! i" and ?c' = "conns (control y) ! i"
  have "copier_of dir (stage ?c) = None" for dir
    using x by (cases dir) (auto simp: expired_def)
  with forward_step_flow [OF xy, of _ i] x have fl: "flows y (i, dir) = idle_flow" for dir
    by (simp add: expired_def)
  have hd: "headers y i = []"
    using forward_step_header [OF xy, of i] x by (auto simp: expired_def)
  from x have "i < length (conns (control x))" by (simp add: expired_def)
  from forward_step_conn [OF xy this] consider
      (same) "?c' = ?c" "i < length (conns (control y))"
    | (moves) d where "conn_step net (proxyProtocol (control x)) ?c d ?c'" "handler_may x i ?c (stage ?c')"
        "i < length (conns (control y))"
    by blast
  then show ?thesis
  proof cases
    case same
    then show ?thesis
      using x fl hd forward_step_deadline [OF xy, of i t] by (auto simp: expired_def)
  next
    case moves
    from moves(1) have "stage ?c' \<in> {Decrementing, ClosingClient, Finished}"
      by cases (use x moves(2) in \<open>auto simp: expired_def handler_may_def split: if_splits\<close>)
    with moves fl hd x conn_step_keeps [OF moves(1)] show ?thesis by (auto simp: expired_def)
  qed
qed



definition half_closed :: "conn \<Rightarrow> bool" where
  "half_closed c \<longleftrightarrow> source_closed (stage c) \<and> kind (client c) \<notin> {TCPConn, UnixConn} \<longrightarrow> \<not> can_write (client c)"

lemma half_closed_step:
  assumes "conn_step net pp c d c'" and "half_closed c"
  shows "half_closed c'"
  using assms by cases (simp_all add: half_closed_def split: if_splits)

lemma not_writable_step:
  assumes "conn_step net pp c d c'" and "\<not> can_write (client c)"
  shows "\<not> can_write (client c')"
  using assms by cases (simp_all add: Close_conn_def)

lemma reachable_half_closed:
  assumes "proxy_reachable net (start n pp) p"
  shows "list_all half_closed (conns p)"
  using assms
proof (rule proxies.invariant)
  fix p p' assume "proxy_step net p p'" and "list_all half_closed (conns p)"
  then show "list_all half_closed (conns p')"
  proof cases
    case (handler_steps i d c)
    with \<open>list_all half_closed (conns p)\<close> half_closed_step [OF handler_steps(4)] show ?thesis
      by (auto simp: list_all_length nth_list_update)
  next
    case (shutdown_steps i pc q)
    with \<open>list_all half_closed (conns p)\<close> Shutdown_keeps(1) [OF shutdown_steps(4)] show ?thesis by simp
  qed (simp_all add: half_closed_def new_conn_def)
qed simp

text \<open>What a copier sends needs an open destination.\<close>

lemma flow_step_sent: "flow_step dst src h f h' f' \<Longrightarrow> \<not> can_write dst \<Longrightarrow> sent f' = sent f"
  by (erule flow_stepE) simp_all

lemma closed_client_gets_nothing:
  assumes "forward_step net enc timeout s s'" and "i < length (conns (control s))"
    and "\<not> can_write (client (conns (control s) ! i))"
  shows "client_received s' i = client_received s i"
  using assms(1)
proof cases
  case (copier_moves j c dir be dst src h f)
  then show ?thesis
    using assms(3) flow_step_sent [OF copier_moves(8)]
    by (cases "(j, dir) = (i, ToClient)") (auto simp: client_received_def)
next
  case (copier_puts j dir h f)
  then show ?thesis
    by (auto simp: client_received_def split: pump.splits)
qed (simp_all add: client_received_def handler_move_def)

text \<open>
  C32. A TLS client that half-closes loses the rest of the answer: once the copier from a client
  that is neither a TCP nor a unix connection has closed its source, no further byte reaches that
  client, whatever the backend still sends.
\<close>

theorem half_closed_client_gets_nothing:
  assumes "forward_reachable net enc timeout (forward_start n pp) s" and "i < length (conns (control s))"
    and "source_closed (stage (conns (control s) ! i))" and "kind (client (conns (control s) ! i)) \<notin> {TCPConn, UnixConn}"
    and "forward_reachable net enc timeout s s'"
  shows "client_received s' i = client_received s i"
proof -
  let ?I = "\<lambda>x. i < length (conns (control x)) \<and> \<not> can_write (client (conns (control x) ! i)) \<and>
    client_received x i = client_received s i"
  have "?I s'"
    using assms(5)
  proof (rule forwards.detailed.invariant)
    show "?I s"
      using reachable_half_closed [OF forward_control [OF assms(1)]] assms(2-4)
      by (auto simp: list_all_length half_closed_def)
  next
    fix x y assume xy: "forward_step net enc timeout x y" and x: "?I x"
    with forward_step_conn [OF xy, of i] have "i < length (conns (control y))"
        "\<not> can_write (client (conns (control y) ! i))"
      using not_writable_step by (metis (no_types, lifting))+
    with closed_client_gets_nothing [OF xy, of i] x show "?I y" by simp
  qed
  then show ?thesis by simp
qed

theorem half_closed_client_gets_nothing_witness:
  "\<exists>s s'. forward_reachable any_peers (\<lambda>_. ''PROXY'') 10 (forward_start 1 True) s \<and>
     kind (client (conns (control s) ! 0)) = TLSConn \<and> forward_reachable any_peers (\<lambda>_. ''PROXY'') 10 s s' \<and>
     time s' = 5 \<and> client_received s' 0 = client_received s 0"
proof -
  obtain c s where s: "at_work (\<lambda>_. ''PROXY'') 10 any_peers True c sample_heap sample_flow ''PROXY'' None s" "source_closed (stage c)" "kind (client c) = TLSConn"
    using at_work_half_closed [OF friendly_any_peers, of "''PROXY''" "\<lambda>_. ''PROXY''"] by auto
  have r: "forward_reachable any_peers (\<lambda>_. ''PROXY'') 10 s (s\<lparr>time := time s + 5\<rparr>)"
    by (rule forwards.detailed.reach_step [OF forward_step.clock_moves forwards.detailed.reach_refl]) simp
  from half_closed_client_gets_nothing [OF _ _ _ _ r, of 1 True 0] s r show ?thesis
    by (intro exI [of _ s] exI [of _ "s\<lparr>time := time s + 5\<rparr>"]) (simp add: at_work_def)
qed


section \<open>Connections can always end\<close>

text \<open>
  The way of connection \<open>i\<close> to its end, for a proxy with one caller of \<open>Shutdown\<close>: from every
  state its own handler and copiers can get there, without help of any other goroutine.
\<close>

fun pump_left :: "pump \<Rightarrow> nat" where
  "pump_left Unstarted = 4" | "pump_left (Got x) = 3" | "pump_left (Reading x y) = 2"
| "pump_left (Writing x y nr er k) = 2" | "pump_left (CopyReturned x err) = 1" | "pump_left (CopyReleased err) = 0"

definition conn_left :: "nat \<Rightarrow> forwarding \<Rightarrow> nat" where
  "conn_left i s = 10 * stage_left (stage (conns (control s) ! i)) +
     pump_left (pump (flows s (i, ToClient))) + pump_left (pump (flows s (i, ToBackend)))"

definition running_conn ::
  "peers \<Rightarrow> (proxy_header \<Rightarrow> string) \<Rightarrow> int \<Rightarrow> bool \<Rightarrow> nat \<Rightarrow> forwarding \<Rightarrow> bool" where
  "running_conn net enc timeout pp i s \<longleftrightarrow>
     forward_reachable net enc timeout (forward_start 1 pp) s \<and> \<not> panicked (control s) \<and>
     i < length (conns (control s)) \<and> \<not> bad_header (control s) (conns (control s) ! i)"

text \<open>A step of connection \<open>i\<close> towards its end that leaves everything else alone.\<close>

definition frame :: "nat \<Rightarrow> forwarding \<Rightarrow> forwarding \<Rightarrow> bool" where
  "frame i s s' \<longleftrightarrow> (\<forall>j. j \<noteq> i \<longrightarrow> conn_left j s' = conn_left j s) \<and> time s' = time s \<and>
     length (conns (control s')) = length (conns (control s)) \<and> shutdowns (control s') = shutdowns (control s)"

definition conn_progress ::
  "peers \<Rightarrow> (proxy_header \<Rightarrow> string) \<Rightarrow> int \<Rightarrow> bool \<Rightarrow> nat \<Rightarrow> forwarding \<Rightarrow> bool" where
  "conn_progress net enc timeout pp i s \<longleftrightarrow>
     (\<exists>s'. forward_step net enc timeout s s' \<and> running_conn net enc timeout pp i s' \<and>
        conn_left i s' < conn_left i s \<and> frame i s s')"

lemma running_handler:
  assumes "running_conn net enc timeout pp i s" and "conns (control s) ! i = c"
    and "conn_step net (proxyProtocol (control s)) c d c'" and "handler_may s i c (stage c')"
    and "header_bytes enc c c' out"
  shows "conn_progress net enc timeout pp i s"
  unfolding conn_progress_def
proof (intro exI conjI)
  let ?s = "handler_move i d c c' out s"
  show step: "forward_step net enc timeout s ?s"
    using assms by (intro forward_step.handler_moves) (auto simp: running_conn_def)
  have reach: "forward_reachable net enc timeout (forward_start 1 pp) ?s"
    using forwards.detailed.reach_step [OF step] assms(1) by (simp add: running_conn_def)
  have "0 \<le> handlers (control ?s)"
    using wait_inv_handlers [OF reachable_wait_inv [OF forward_control [OF reach]]] .
  with reach assms(1,2) conn_step_keeps [OF assms(3)] show "running_conn net enc timeout pp i ?s"
    by (auto simp: running_conn_def handler_move_def bad_header_def)
  show "conn_left i ?s < conn_left i s"
    using assms(1,2) stage_left_step [OF assms(3)] by (simp add: conn_left_def handler_move_def running_conn_def)
  show "frame i s ?s"
    by (simp add: frame_def conn_left_def handler_move_def)
qed

lemma running_flow:
  assumes "running_conn net enc timeout pp i s"
    and "forward_step net enc timeout s (s\<lparr>memory := h, flows := (flows s)((i, dir) := f)\<rparr>)"
    and "pump_left (pump f) < pump_left (pump (flows s (i, dir)))"
  shows "conn_progress net enc timeout pp i s"
  unfolding conn_progress_def
proof (intro exI conjI)
  show "running_conn net enc timeout pp i (s\<lparr>memory := h, flows := (flows s)((i, dir) := f)\<rparr>)"
    using assms(1) forwards.detailed.reach_step [OF assms(2)] by (simp add: running_conn_def)
  show "conn_left i (s\<lparr>memory := h, flows := (flows s)((i, dir) := f)\<rparr>) < conn_left i s"
    using assms(3) by (cases dir) (simp_all add: conn_left_def)
  show "frame i s (s\<lparr>memory := h, flows := (flows s)((i, dir) := f)\<rparr>)"
    by (simp add: frame_def conn_left_def)
qed (fact assms(2))

lemma flow_can_step:
  assumes "\<not> returned f"
  shows "\<exists>h' f'. flow_step dst src h f h' f' \<and> pump_left (pump f') < pump_left (pump f)"
proof (cases "pump f")
  case Unstarted
  obtain x h' where "bufferPool_New h = (x, h')" by fastforce
  from flow_step.gets_buffer [OF Unstarted Get_new [OF this]] Unstarted show ?thesis by fastforce
next
  case (Got x)
  obtain y h' where y: "make_bytes 1 h = (y, h')" by fastforce
  show ?thesis
  proof (cases "kind dst = TCPConn")
    case True
    then have "True \<in> has_ReadFrom (kind dst)" by (simp add: has_ReadFrom_def)
    from flow_step.copies_with_ReadFrom [OF Got this y] Got show ?thesis by fastforce
  next
    case False
    then have "False \<in> has_ReadFrom (kind dst)" by (cases "kind dst") (simp_all add: has_ReadFrom_def)
    from flow_step.copies_with_buffer [OF Got this] Got show ?thesis by fastforce
  qed
next
  case (Reading x y)
  from flow_step.reads_some [OF this, of "[]" "contents h y" h src dst "ReadErr ''closed''"] Reading show ?thesis
    by (fastforce simp: after_Read_def next_read_def)
next
  case (Writing x y nr er k)
  from flow_step.write_returns [OF this, of dst src h "Some ''broken pipe''"] Writing show ?thesis
    by (fastforce simp: after_Write_def)
qed (use assms in \<open>simp_all add: returned_def\<close>)

lemma copier_can_step:
  assumes "running_conn net enc timeout pp i s" and "copier_of dir (stage (conns (control s) ! i)) = Some Copying"
    and "\<not> returned (flows s (i, dir))"
  shows "conn_progress net enc timeout pp i s"
proof -
  let ?c = "conns (control s) ! i"
  have r: "forward_reachable net enc timeout (forward_start 1 pp) s" "i < length (conns (control s))" "\<not> panicked (control s)"
    using assms(1) by (auto simp: running_conn_def)
  obtain a b where "stage ?c = Fusing a b" using assms(2) by (cases "stage ?c"; cases dir) auto
  with reachable_wires(2) [OF r(1,2)] obtain be where be: "backend ?c = Some be"
    by (auto simp: conn_inv_def passed_handshake_def)
  obtain dst src where ends: "copier_ends dir (client ?c) be = (dst, src)" by fastforce
  obtain h f where f: "flow_step dst src (memory s) (flows s (i, dir)) h f" "pump_left (pump f) < pump_left (pump (flows s (i, dir)))"
    using flow_can_step [OF assms(3)] by blast
  from forward_step.copier_moves [OF r(3,2) refl assms(2) be ends f(1)] f(2) show ?thesis
    by (rule running_flow [OF assms(1)])
qed

lemma copier_can_put:
  assumes "running_conn net enc timeout pp i s" and "copier_of dir (stage (conns (control s) ! i)) = Some CopyDone"
    and "returned (flows s (i, dir))" and "\<not> released (flows s (i, dir))"
  shows "conn_progress net enc timeout pp i s"
proof -
  obtain x err where p: "pump (flows s (i, dir)) = CopyReturned x err"
    using assms(3,4) by (auto simp: returned_def released_def split: pump.splits)
  then obtain h f where f: "put_buffer (memory s) (flows s (i, dir)) = Some (h, f)" "pump f = CopyReleased err"
    by simp
  have "\<not> panicked (control s)" "i < length (conns (control s))" using assms(1) by (auto simp: running_conn_def)
  from forward_step.copier_puts [OF this assms(2) f(1)] show ?thesis
    by (rule running_flow [OF assms(1)]) (simp add: p f(2))
qed

lemma running_goes:
  assumes "running_conn net enc timeout pp i s" and "conns (control s) ! i = c"
    and "conn_step net (proxyProtocol (control s)) c d c'" and "handler_may s i c (stage c')"
    and "stage c \<noteq> SendingHeader"
  shows "conn_progress net enc timeout pp i s"
  using running_handler [OF assms(1-4), of "[]"] assms(5) by (simp add: header_bytes_def)

lemma fused_can_step:
  assumes run: "running_conn net enc timeout pp i s" and st: "stage (conns (control s) ! i) = Fusing a b"
  shows "conn_progress net enc timeout pp i s"
proof -
  let ?c = "conns (control s) ! i" and ?down = "flows s (i, ToClient)" and ?up = "flows s (i, ToBackend)"
  have r: "forward_reachable net enc timeout (forward_start 1 pp) s" "i < length (conns (control s))"
    using run by (auto simp: running_conn_def)
  obtain be where be: "backend ?c = Some be"
    using reachable_wires(2) [OF r] st by (auto simp: conn_inv_def passed_handshake_def)
  have w: "a \<noteq> Copying \<longrightarrow> returned ?down" "b \<noteq> Copying \<longrightarrow> returned ?up"
    using reachable_wires(1) [OF r] st by (auto simp: wires_def)
  note go = running_goes [OF run refl]
  show ?thesis
  proof (cases "a = Copying \<and> \<not> returned ?down \<or> b = Copying \<and> \<not> returned ?up")
    case True
    then show ?thesis using copier_can_step [OF run] st by (metis copier_of.simps(1,2))
  next
    case ret: False
    show ?thesis
    proof (cases "a = CopyDone \<and> \<not> released ?down \<or> b = CopyDone \<and> \<not> released ?up")
      case True
      then show ?thesis
        using copier_can_put [OF run, of ToClient] copier_can_put [OF run, of ToBackend] st w by auto
    next
      case False
      have may: "handler_may s i ?c (Fusing x y)" for x y
        using ret w by (auto simp: handler_may_def)
      show ?thesis
      proof (cases "a = CopyDone \<and> b = CopyDone")
        case True
        with False st show ?thesis
          by (intro go [OF conn_step.fuse_returns]) (auto simp: handler_may_def)
      next
        case False
        then have "\<exists>d c'. conn_step net (proxyProtocol (control s)) ?c d c' \<and> (\<exists>x y. stage c' = Fusing x y)"
          using st be by (cases a; cases b) (fastforce intro: conn_step.intros)+
        then obtain d c' x y where "conn_step net (proxyProtocol (control s)) ?c d c'" "stage c' = Fusing x y" by blast
        with go [OF this(1)] may st show ?thesis by simp
      qed
    qed
  qed
qed

lemma conn_can_step:
  assumes run: "running_conn net enc timeout pp i s" and "stage (conns (control s) ! i) \<noteq> Finished"
  shows "conn_progress net enc timeout pp i s"
proof -
  let ?c = "conns (control s) ! i"
  note go = running_goes [OF run refl]
  have fails: "forceHandshake (kind (client ?c)) None (Some (''refused'', False)) None =
    (if kind (client ?c) = TLSConn then Some ''refused'' else None, 0)"
    by (simp add: forceHandshake_def)
  show ?thesis
  proof (cases "stage ?c")
    case Handshaking
    from go [OF conn_step.handshakes [OF this fails]] Handshaking show ?thesis
      by (simp add: handler_may_def split: if_splits)
  next
    case SendingHeader
    have "proxyProtocol (control s)"
      using reachable_wires(1) [of net enc timeout 1 pp s i] run SendingHeader by (simp add: running_conn_def wires_def)
    then obtain h where h: "getProxyProtoHeaderFor (RemoteAddr ?c) (LocalAddr ?c) = Value h"
      using run
      by (auto simp: running_conn_def bad_header_def getProxyProtoHeaderFor_def split: net_addr.splits)
    from running_handler [OF run refl conn_step.sends_header [OF SendingHeader h, where err = "Some ''broken pipe''"], of "[]"]
    show ?thesis using SendingHeader h by (simp add: handler_may_def header_bytes_def)
  next
    case (Fusing a b)
    with run show ?thesis by (rule fused_can_step)
  qed (use assms(2) in \<open>auto simp: handler_may_def intro: go conn_step.intros\<close>)
qed

interpretation endings: completing_system "forward_step net enc timeout" "forward_reachable net enc timeout"
  "running_conn net enc timeout pp i" "\<lambda>s. stage (conns (control s) ! i) = Finished" "conn_left i" for net enc timeout pp i
  by unfold_locales (drule (1) conn_can_step, unfold conn_progress_def, blast)



end
