(* ===== verification/Dataplane.thy ===== *)
theory Dataplane
  imports System Forwarding
begin

text \<open>
  The running process with its data: the process of the theory \<open>System\<close> and the proxy with its
  bytes of the theory \<open>Forwarding\<close> in one step relation, on one clock.

  A step is a step of the process outside the proxy, a step of the proxy or of its copiers, or a
  step of the call of \<open>Shutdown\<close> that the main goroutine makes. Both theories then hold of the
  composed system, which is what the program is; in particular a shutdown can complete while data
  is under way.
\<close>


section \<open>The composition\<close>

record running =
  proc :: process
  data :: forwarding

definition running_start :: "int \<Rightarrow> started \<Rightarrow> running" where
  "running_start interval st =
     \<lparr>proc = process_start interval st, data = (forward_start 1 False)\<lparr>control := started_proxy st\<rparr>\<rparr>"

inductive running_step ::
  "build \<Rightarrow> peers \<Rightarrow> world set \<Rightarrow> (proxy_header \<Rightarrow> string) \<Rightarrow> int \<Rightarrow> running \<Rightarrow> running \<Rightarrow> bool"
  for b :: build and net :: peers and W :: "world set" and enc :: "proxy_header \<Rightarrow> string" and timeout :: int where
  process_moves:
    "process_step b net W (proc r) s \<Longrightarrow> proxy s = proxy (proc r) \<Longrightarrow>
     running_step b net W enc timeout r
       (r\<lparr>proc := s, data := (data r)\<lparr>time := time (data r) + (clock s - clock (proc r))\<rparr>\<rparr>)"
| data_moves:
    "ended (proc r) = None \<Longrightarrow> main_at (proc r) \<noteq> Opening \<Longrightarrow> forward_step net enc timeout (data r) x \<Longrightarrow>
     shutdowns (control x) = shutdowns (control (data r)) \<Longrightarrow> time x = time (data r) \<Longrightarrow>
     running_step b net W enc timeout r
       (r\<lparr>proc := (proc r)\<lparr>proxy := control x, ended := end_if_panicked (control x)\<rparr>, data := x\<rparr>)"
| main_moves:
    "ended (proc r) = None \<Longrightarrow> main_at (proc r) = InShutdown \<Longrightarrow>
     running_step b net W enc timeout r
       (r\<lparr>proc := main_Shutdown (proc r), data := (data r)\<lparr>control := proxy (main_Shutdown (proc r))\<rparr>\<rparr>)"

definition running_reachable ::
  "build \<Rightarrow> peers \<Rightarrow> world set \<Rightarrow> (proxy_header \<Rightarrow> string) \<Rightarrow> int \<Rightarrow> running \<Rightarrow> running \<Rightarrow> bool" where
  "running_reachable b net W enc timeout r r' \<longleftrightarrow> (running_step b net W enc timeout)\<^sup>*\<^sup>* r r'"

text \<open>The two halves show the same proxy and the same time, and the process is a sound one.\<close>

definition joined :: "build \<Rightarrow> peers \<Rightarrow> world set \<Rightarrow> bool \<Rightarrow> running \<Rightarrow> bool" where
  "joined b net W pp r \<longleftrightarrow> control (data r) = proxy (proc r) \<and> time (data r) = clock (proc r) \<and>
     process_inv b net W pp (proc r)"

lemma process_step_clock: "process_step b net W s s' \<Longrightarrow> clock s \<le> clock s'"
  by (erule process_stepE) (auto simp: take_signal_def main_Shutdown_def split: prod.split)

lemma main_Shutdown_proxy:
  assumes "process_inv b net W pp s" and "ended s = None"
  shows "proxy_step net (proxy s) (proxy (main_Shutdown s))" "conns (proxy (main_Shutdown s)) = conns (proxy s)"
proof -
  obtain pc where pc: "shutdowns (proxy s) = [pc]" "\<not> panicked (proxy s)"
    using assms by (auto simp: process_inv_def main_inv_def)
  obtain pc' p where p: "Shutdown pc (proxy s) = (pc', p)" by fastforce
  with pc have eq: "proxy (main_Shutdown s) = p\<lparr>shutdowns := (shutdowns (proxy s))[0 := pc']\<rparr>"
    by (simp add: main_Shutdown_def)
  show "proxy_step net (proxy s) (proxy (main_Shutdown s))"
    unfolding eq using pc p by (intro shutdown_steps) simp_all
  show "conns (proxy (main_Shutdown s)) = conns (proxy s)"
    unfolding eq using Shutdown_keeps(1) [OF p] by simp
qed

text \<open>Each half simulates its own theory.\<close>

lemma running_step_proc:
  assumes "running_step b net W enc timeout r r'" and "joined b net W pp r"
  shows "process_step b net W (proc r) (proc r') \<or> proc r' = proc r"
  using assms(1)
proof cases
  case (data_moves x)
  have c: "control (data r) = proxy (proc r)" using assms(2) by (simp add: joined_def)
  from forward_step_control [OF data_moves(4)] show ?thesis
  proof
    assume "proxy_step net (control (data r)) (control x)"
    then show ?thesis
      using proxy_runs [OF data_moves(2,3), of net "control x" b W] c data_moves by auto
  next
    assume "control x = control (data r)"
    moreover have "\<not> panicked (proxy (proc r))"
      using assms(2) data_moves(2) by (simp add: joined_def process_inv_def)
    ultimately show ?thesis
      using c data_moves(1,2) by (simp add: end_if_panicked_def)
  qed
next
  case main_moves
  then show ?thesis using main_shuts_down [OF main_moves(2,3)] by simp
qed simp

lemma running_step_data:
  assumes "running_step b net W enc timeout r r'" and "joined b net W pp r"
  shows "forward_step net enc timeout (data r) (data r') \<or> data r' = data r"
  using assms(1)
proof cases
  case (process_moves s)
  have "clock (proc r) \<le> clock s" using process_step_clock [OF process_moves(2)] .
  then show ?thesis
    using forward_step.clock_moves [of "clock s - clock (proc r)" net enc timeout "data r"] process_moves(1)
    by (cases "clock s = clock (proc r)") auto
next
  case main_moves
  from assms(2) have c: "control (data r) = proxy (proc r)" "process_inv b net W pp (proc r)" by (simp_all add: joined_def)
  from main_Shutdown_proxy [OF c(2) main_moves(2)] c(1) main_moves(1) show ?thesis
    by (auto intro: forward_step.proxy_moves)
qed simp

lemma joined_step:
  assumes "running_step b net W enc timeout r r'" and "joined b net W pp r"
  shows "joined b net W pp r'"
proof -
  have "process_inv b net W pp (proc r')"
    using running_step_proc [OF assms] process_inv_step assms(2) by (auto simp: joined_def)
  moreover have "control (data r') = proxy (proc r') \<and> time (data r') = clock (proc r')"
    using assms by cases (auto simp: joined_def main_Shutdown_def split: prod.split)
  ultimately show ?thesis by (simp add: joined_def)
qed

interpretation running_process: simulation "running_step b net W enc timeout" "running_reachable b net W enc timeout"
  "process_step b net W" "process_reachable b net W" proc "joined b net W pp" for b net W enc timeout pp
  by unfold_locales (auto simp: running_reachable_def intro: joined_step dest: running_step_proc)

interpretation running_data: simulation "running_step b net W enc timeout" "running_reachable b net W enc timeout"
  "forward_step net enc timeout" "forward_reachable net enc timeout" data "joined b net W pp" for b net W enc timeout pp
  by unfold_locales (auto simp: running_reachable_def forward_reachable_def intro: joined_step dest: running_step_data)


section \<open>Completing a shutdown with data under way\<close>

definition conns_data_left :: "forwarding \<Rightarrow> nat" where
  "conns_data_left x = (\<Sum>i<length (conns (control x)). conn_left i x)"

definition data_left :: "running \<Rightarrow> nat" where
  "data_left r =
     (if ended (proc r) \<noteq> None then 0
      else 1 + main_left (main_at (proc r)) (hd (shutdowns (proxy (proc r)))) + conns_data_left (data r))"

definition draining_data ::
  "build \<Rightarrow> peers \<Rightarrow> world set \<Rightarrow> (proxy_header \<Rightarrow> string) \<Rightarrow> int \<Rightarrow> bool \<Rightarrow> int \<Rightarrow> running \<Rightarrow> bool" where
  "draining_data b net W enc timeout pp t r \<longleftrightarrow> joined b net W pp r \<and>
     forward_reachable net enc timeout (forward_start 1 pp) (data r) \<and> shutdown_begun (main_at (proc r)) \<and>
     ended (proc r) \<in> {None, Some (Exited 0)} \<and> clock (proc r) = t"

lemma main_Shutdown_main_left:
  assumes "process_inv b net W pp s" and "ended s = None" and "main_at s = InShutdown"
  shows "main_left (main_at (main_Shutdown s)) (hd (shutdowns (proxy (main_Shutdown s)))) <
    main_left (main_at s) (hd (shutdowns (proxy s)))"
proof -
  have "accept_at (proxy (main_Shutdown s)) = accept_at (proxy s)" "conns (proxy (main_Shutdown s)) = conns (proxy s)"
    using Shutdown_keeps(1,5) [of "hd (shutdowns (proxy s))" "proxy s"]
    by (auto simp: main_Shutdown_def split: prod.split)
  with main_Shutdown_less [OF assms(3,2)] main_Shutdown_alive(2) [OF assms(1,2)] assms(2) show ?thesis
    by (simp add: drain_left_def conns_left_def)
qed

lemma fused_running_conn:
  assumes "forward_reachable net enc timeout (forward_start 1 pp) x" and "\<not> panicked (control x)"
    and "i < length (conns (control x))" and "holds (conns (control x) ! i) \<noteq> 0"
  shows "running_conn net enc timeout pp i x"
proof -
  have "full_header enc (proxyProtocol (control x)) (conns (control x) ! i) (headers x i)"
    using reachable_wires(1) [OF assms(1,3)] assms(4)
    by (cases "stage (conns (control x) ! i)") (auto simp: wires_def holds_def)
  then have "\<not> bad_header (control x) (conns (control x) ! i)"
    by (auto simp: full_header_def bad_header_def split: if_splits)
  with assms show ?thesis by (simp add: running_conn_def)
qed

lemma conns_data_left_less:
  assumes "conn_left i x' < conn_left i x" and "frame i x x'" and "i < length (conns (control x))"
  shows "conns_data_left x' < conns_data_left x"
  unfolding conns_data_left_def
proof -
  have "(\<Sum>j<length (conns (control x)). conn_left j x') < (\<Sum>j<length (conns (control x)). conn_left j x)"
    using assms by (intro sum_strict_mono_ex1) (auto simp: frame_def intro: order.strict_implies_order dest: le_eq_less_or_eq [THEN iffD2])
  with assms(2) show "(\<Sum>j<length (conns (control x')). conn_left j x') < (\<Sum>j<length (conns (control x)). conn_left j x)"
    by (simp add: frame_def)
qed

lemma draining_data_progress:
  assumes "draining_data b net W enc timeout pp t r" and "ended (proc r) = None"
  shows "\<exists>r'. running_step b net W enc timeout r r' \<and> draining_data b net W enc timeout pp t r' \<and> data_left r' < data_left r"
proof -
  let ?s = "proc r"
  have inv: "joined b net W pp r" "process_inv b net W pp ?s" "forward_reachable net enc timeout (forward_start 1 pp) (data r)"
      "control (data r) = proxy ?s" "\<not> panicked (proxy ?s)"
    using assms by (auto simp: draining_data_def joined_def process_inv_def)
  have go: ?thesis
    if "running_step b net W enc timeout r r'" "shutdown_begun (main_at (proc r'))" "ended (proc r') \<in> {None, Some (Exited 0)}"
      "clock (proc r') = clock ?s" "data_left r' < data_left r" for r'
  proof -
    have "forward_reachable net enc timeout (forward_start 1 pp) (data r')"
      using running_step_data [OF that(1) inv(1)] inv(3) forwards.detailed.reach_step by fastforce
    with that joined_step [OF that(1) inv(1)] assms(1) show ?thesis by (auto simp: draining_data_def)
  qed
  have main: ?thesis
    if "process_step b net W ?s (?s\<lparr>main_at := at\<rparr>)" "main_left at pc < main_left (main_at ?s) pc"
      "shutdown_begun at" "pc = hd (shutdowns (proxy ?s))" for at pc
    using that assms(2)
    by (intro go [OF process_moves [OF that(1)]]) (simp_all add: data_left_def conns_data_left_def conn_left_def)
  show ?thesis
  proof (cases "main_at ?s")
    case InShutdown
    note alive = main_Shutdown_alive [OF inv(2) assms(2)]
    have "conns_data_left ((data r)\<lparr>control := proxy (main_Shutdown ?s)\<rparr>) = conns_data_left (data r)"
      using main_Shutdown_proxy(2) [OF inv(2) assms(2)] inv(4) by (simp add: conns_data_left_def conn_left_def)
    with alive main_Shutdown_main_left [OF inv(2) assms(2) InShutdown] assms(2) show ?thesis
      by (intro go [OF main_moves [OF assms(2) InShutdown]]) (simp_all add: data_left_def)
  next
    case InStop
    show ?thesis by (rule main [OF stops_signals [OF assms(2) InStop]]) (simp_all add: InStop shutdown_begun_def)
  next
    case InWait
    show ?thesis
    proof (cases "Wait_returns (proxy ?s)")
      case True
      show ?thesis by (rule main [OF wait_returns [OF assms(2) InWait True]]) (simp_all add: InWait shutdown_begun_def)
    next
      case False
      from waits_for_fused [OF inv(2) InWait False] inv(4) obtain i where
        i: "i < length (conns (control (data r)))" "holds (conns (control (data r)) ! i) \<noteq> 0"
        by (auto simp: list_all_length)
      have run: "running_conn net enc timeout pp i (data r)"
        using fused_running_conn [OF inv(3) _ i] inv(4,5) by simp
      have "stage (conns (control (data r)) ! i) \<noteq> Finished" using i(2) by (auto simp: holds_def)
      from conn_can_step [OF run this] obtain x where x: "forward_step net enc timeout (data r) x"
          "running_conn net enc timeout pp i x" "conn_left i x < conn_left i (data r)" "frame i (data r) x"
        by (auto simp: conn_progress_def)
      then have "\<not> panicked (control x)" "shutdowns (control x) = shutdowns (control (data r))" "time x = time (data r)"
        by (auto simp: running_conn_def frame_def)
      with conns_data_left_less [OF x(3,4) i(1)] assms(2) InWait inv(4) show ?thesis
        by (intro go [OF data_moves [OF assms(2) _ x(1)]]) (simp_all add: data_left_def end_if_panicked_def shutdown_begun_def)
    qed
  next
    case Leaving
    have "running_step b net W enc timeout r
        (r\<lparr>proc := ?s\<lparr>ended := Some (Exited 0)\<rparr>, data := (data r)\<lparr>time := time (data r) + (clock (?s\<lparr>ended := Some (Exited 0)\<rparr>) - clock ?s)\<rparr>\<rparr>)"
      by (rule process_moves [OF exits [OF assms(2) Leaving]]) simp
    from go [OF this] assms(2) Leaving show ?thesis by (simp add: data_left_def shutdown_begun_def)
  qed (use assms(1) in \<open>auto simp: draining_data_def shutdown_begun_def\<close>)
qed

interpretation data_drain: completing_system "running_step b net W enc timeout" "running_reachable b net W enc timeout"
  "draining_data b net W enc timeout pp t" "\<lambda>r. ended (proc r) \<noteq> None" data_left for b net W enc timeout pp t
  by unfold_locales (use draining_data_progress in simp)


section \<open>Sample runs\<close>

lemma running_start_joined:
  assumes "started_proxy st = start 1 pp"
  shows "joined b net W pp (running_start interval st)" "data (running_start interval st) = forward_start 1 pp"
  using assms process_start_inv [OF assms, of b net W interval]
  by (simp_all add: joined_def running_start_def forward_start_def) (simp add: process_start_def)

text \<open>A running process that has come to \<open>select\<close>, and one that serves a single connection.\<close>

definition running_launched :: "int \<Rightarrow> started \<Rightarrow> running" where
  "running_launched interval st = (running_start interval st)\<lparr>proc := launched interval st\<rparr>"

lemma running_schedule:
  assumes "schedule b as (proc r) = Some s" and "(\<Union>a\<in>set as. action_worlds a) \<subseteq> W"
    and "list_all (\<lambda>a. a \<noteq> MainShutdown \<and> (\<forall>d. a \<noteq> Elapse d)) as"
  shows "running_reachable b net W enc timeout r (r\<lparr>proc := s\<rparr>)"
  using assms
proof (induction "as" arbitrary: r)
  case Nil
  then show ?case by (cases r) (simp add: running_reachable_def)
next
  case (Cons a "as")
  then obtain s1 where s1: "ended (proc r) = None" "perform b a (proc r) = Some s1" "schedule b as s1 = Some s"
    by (auto split: if_splits option.splits)
  have same: "proxy s1 = proxy (proc r)" "clock s1 = clock (proc r)"
    using s1(2) Cons.prems(3)
    by (cases a; auto simp: after_reload_def take_signal_def split: if_splits option.splits outcome.splits main_at.splits list.splits)+
  have "process_step b net W (proc r) s1"
    using s1 Cons.prems(2) by (intro perform_step) auto
  from process_moves [OF this same(1), of enc timeout] same(2)
  have "running_step b net W enc timeout r (r\<lparr>proc := s1\<rparr>)" by simp
  moreover have "running_reachable b net W enc timeout (r\<lparr>proc := s1\<rparr>) (r\<lparr>proc := s\<rparr>)"
    using Cons.IH [of "r\<lparr>proc := s1\<rparr>"] s1(3) Cons.prems(2,3) by simp
  ultimately show ?case
    unfolding running_reachable_def by (rule converse_rtranclp_into_rtranclp)
qed

lemma running_launch: "running_reachable b net W enc timeout (running_start interval st) (running_launched interval st)"
  unfolding running_launched_def
  by (rule running_schedule [of b "[OpenListeners, Announce, Subscribe]"])
    (simp_all add: running_start_def process_start_def launched_def)

definition running_serves ::
  "build \<Rightarrow> peers \<Rightarrow> world set \<Rightarrow> (proxy_header \<Rightarrow> string) \<Rightarrow> int \<Rightarrow> running \<Rightarrow> conn \<Rightarrow> bool" where
  "running_serves b net W enc timeout r0 c \<longleftrightarrow>
     (\<exists>r. running_reachable b net W enc timeout r0 r \<and> ended (proc r) = None \<and> main_at (proc r) \<noteq> Opening \<and>
        proxy (proc r) = control (data r) \<and> conns (control (data r)) = [c] \<and> \<not> panicked (control (data r)) \<and>
        handlers (control (data r)) = 1 \<and> \<not> proxyProtocol (control (data r)))"

lemma running_data_step:
  assumes "running_reachable b net W enc timeout r0 r" and "ended (proc r) = None" and "main_at (proc r) \<noteq> Opening"
    and "forward_step net enc timeout (data r) x" and "shutdowns (control x) = shutdowns (control (data r))"
    and "time x = time (data r)" and "\<not> panicked (control x)"
  shows "running_reachable b net W enc timeout r0 (r\<lparr>proc := (proc r)\<lparr>proxy := control x\<rparr>, data := x\<rparr>)"
proof -
  have "(proc r)\<lparr>proxy := control x, ended := end_if_panicked (control x)\<rparr> = (proc r)\<lparr>proxy := control x\<rparr>"
    using assms(2,7) by (simp add: end_if_panicked_def)
  with running_process.detailed.reach_step [OF data_moves [OF assms(2-6)] assms(1)] show ?thesis by simp
qed

lemma running_serves_accepted:
  assumes "started_proxy st = start 1 False" and "listener_returns net k remote local"
  shows "running_serves b net W enc timeout (running_start interval st) (new_conn k certs remote local)"
proof -
  let ?r = "running_launched interval st"
  let ?p = "(start 1 False)\<lparr>openCounter := openCounter (start 1 False) + 1, totalCounter := totalCounter (start 1 False) + 1,
    conns := conns (start 1 False) @ [new_conn k certs remote local]\<rparr>"
  have c: "control (data ?r) = start 1 False" "ended (proc ?r) = None" "main_at (proc ?r) \<noteq> Opening"
    using assms(1) by (simp_all add: running_launched_def running_start_def launched_simps)
  have "proxy_step net (control (data ?r)) ?p"
    unfolding c(1) using assms(2) by (intro accepts_conn) simp_all
  then have "forward_step net enc timeout (data ?r) ((data ?r)\<lparr>control := ?p\<rparr>)"
    by (rule forward_step.proxy_moves) (simp add: c(1))
  from running_data_step [OF running_launch c(2,3) this] show ?thesis
    unfolding running_serves_def
    by (intro exI [of _ "?r\<lparr>proc := (proc ?r)\<lparr>proxy := ?p\<rparr>, data := (data ?r)\<lparr>control := ?p\<rparr>\<rparr>"]) (simp add: c)
qed

lemma running_serves_step:
  assumes "running_serves b net W enc timeout r0 c" and "conn_step net False c d c'" and "d_handlers d = 0"
    and "stage c' \<in> {Connecting, Counting}" and "kind (client c) \<noteq> TLSConn" and "stage c \<noteq> SendingHeader"
  shows "running_serves b net W enc timeout r0 c'"
proof -
  obtain r where r: "running_reachable b net W enc timeout r0 r" "ended (proc r) = None" "main_at (proc r) \<noteq> Opening"
      "proxy (proc r) = control (data r)" "conns (control (data r)) = [c]" "\<not> panicked (control (data r))"
      "handlers (control (data r)) = 1" "\<not> proxyProtocol (control (data r))"
    using assms(1) by (auto simp: running_serves_def)
  let ?x = "handler_move 0 d c c' [] (data r)"
  have "forward_step net enc timeout (data r) ?x"
    using r assms by (intro forward_step.handler_moves) (auto simp: handler_may_def header_bytes_def)
  from running_data_step [OF r(1-3) this] r assms(3) show ?thesis
    unfolding running_serves_def
    by (intro exI [of _ "r\<lparr>proc := (proc r)\<lparr>proxy := control ?x\<rparr>, data := ?x\<rparr>"]) (simp add: handler_move_def)
qed

lemma running_serves_connected:
  assumes "running_serves b net W enc timeout r0 (new_conn k certs remote local)" and "k \<noteq> TLSConn" and "dial_returns net k' certs'"
  shows "\<exists>c. running_serves b net W enc timeout r0 c \<and> stage c = Counting \<and> backend c = Some (new_endpoint k') \<and> backend_peer c = certs'"
proof -
  let ?c = "new_conn k certs remote local"
  have k: "kind (client ?c) \<noteq> TLSConn" using assms(2) by (simp add: new_conn_def new_endpoint_def)
  then have "forceHandshake (kind (client ?c)) None None None = (None, 0)"
    by (simp add: forceHandshake_def)
  then have "conn_step net False ?c (no_delta\<lparr>d_error := (if None = (None :: error option) then 0 else 1), d_timeout := 0\<rparr>)
      (?c\<lparr>stage := (if None = (None :: error option) then Connecting else Decrementing)\<rparr>)"
    using k by (intro handshakes) (simp_all add: new_conn_def)
  from running_serves_step [OF assms(1) this] k have 1: "running_serves b net W enc timeout r0 (?c\<lparr>stage := Connecting\<rparr>)"
    by (simp add: no_delta_def new_conn_def)
  have "conn_step net False (?c\<lparr>stage := Connecting\<rparr>) no_delta
      ((?c\<lparr>stage := Connecting\<rparr>)\<lparr>backend := Some (new_endpoint k'), backend_peer := certs', stage := (if False then SendingHeader else Counting)\<rparr>)"
    using assms(3) by (intro dials) simp_all
  from running_serves_step [OF 1 this] k show ?thesis
    by (intro exI [of _ "?c\<lparr>backend := Some (new_endpoint k'), backend_peer := certs', stage := Counting\<rparr>"]) (simp add: no_delta_def)
qed


section \<open>Every run of the data\<close>

text \<open>
  The converse of the simulation: as long as no call of \<open>Shutdown\<close> has begun, the process lets the
  proxy and its copiers do whatever they can do by themselves.
\<close>

definition undisturbed :: "forwarding \<Rightarrow> bool" where
  "undisturbed x \<longleftrightarrow> shutdowns (control x) = [Idle] \<and> \<not> quit (control x) \<and> \<not> panicked (control x)"

lemma undisturbed_before:
  assumes "forward_step net enc timeout x y" and "forward_reachable net enc timeout (forward_start 1 pp) x"
    and "undisturbed y"
  shows "undisturbed x"
  using forward_step_control [OF assms(1)]
proof
  assume "proxy_step net (control x) (control y)"
  then show ?thesis
  proof cases
    case (shutdown_steps i pc p)
    from reachable_wait_inv [OF forward_control [OF assms(2)]] obtain pc0 where
      pc0: "shutdowns (control x) = [pc0]" "shutdown_inv pc0 (quit (control x)) (listener_open (control x))
        (handlers (control x) - total holds (control x))"
      by (auto simp: wait_inv_def)
    with shutdown_steps assms(3) show ?thesis
      by (cases pc0) (auto simp: undisturbed_def wg_Add_def split: if_splits)
  qed (use assms(3) in \<open>auto simp: undisturbed_def\<close>)
qed (use assms(3) in \<open>simp add: undisturbed_def\<close>)

lemma forward_step_time:
  "forward_step net enc timeout x y \<Longrightarrow> time y = time x \<or> (\<exists>t>0. y = x\<lparr>time := time x + t\<rparr>)"
  by (erule forward_step.cases) (auto simp: handler_move_def)

definition covers :: "build \<Rightarrow> peers \<Rightarrow> world set \<Rightarrow> bool \<Rightarrow> running \<Rightarrow> forwarding \<Rightarrow> bool" where
  "covers b net W pp r x \<longleftrightarrow> joined b net W pp r \<and> data r = x \<and> ended (proc r) = None \<and> main_at (proc r) = Selecting"

lemma covers_step:
  assumes "covers b net W pp r x" and "forward_step net enc timeout x y" and "undisturbed x" and "undisturbed y"
  shows "\<exists>r'. running_step b net W enc timeout r r' \<and> covers b net W pp r' y"
proof -
  have c: "joined b net W pp r" "data r = x" "ended (proc r) = None" "main_at (proc r) = Selecting"
    using assms(1) by (simp_all add: covers_def)
  from forward_step_time [OF assms(2)] show ?thesis
  proof
    assume t: "time y = time x"
    from data_moves [OF c(3), of net enc timeout y b W] c assms(2-4) t
    have "running_step b net W enc timeout r (r\<lparr>proc := (proc r)\<lparr>proxy := control y, ended := None\<rparr>, data := y\<rparr>)"
      by (simp add: undisturbed_def end_if_panicked_def)
    with joined_step [OF this c(1)] c show ?thesis by (auto simp: covers_def)
  next
    assume "\<exists>t>0. y = x\<lparr>time := time x + t\<rparr>"
    then obtain t where t: "0 < t" "y = x\<lparr>time := time x + t\<rparr>" by blast
    from process_moves [OF time_passes [OF c(3) t(1)], of b net W enc timeout] c(2) t(2)
    have "running_step b net W enc timeout r (r\<lparr>proc := (proc r)\<lparr>clock := clock (proc r) + t\<rparr>, data := y\<rparr>)"
      by simp
    with joined_step [OF this c(1)] c show ?thesis by (auto simp: covers_def)
  qed
qed

lemma running_covers_data:
  assumes "forward_reachable net enc timeout (forward_start 1 pp) x" and "undisturbed x"
    and "covers b net W pp r (forward_start 1 pp)"
  shows "\<exists>r'. running_reachable b net W enc timeout r r' \<and> covers b net W pp r' x"
  using assms(1)[unfolded forward_reachable_def] assms(2)
proof (induction rule: rtranclp_induct)
  case base
  with assms(3) show ?case using running_process.detailed.reach_refl by blast
next
  case (step x y)
  have r: "forward_reachable net enc timeout (forward_start 1 pp) x"
    using step(1) by (simp add: forward_reachable_def)
  have u: "undisturbed x" using undisturbed_before [OF step(2) r step(4)] .
  from step(3) [OF u] obtain r' where r': "running_reachable b net W enc timeout r r'" "covers b net W pp r' x" by blast
  from covers_step [OF r'(2) step(2) u step(4)] obtain r'' where
    "running_step b net W enc timeout r' r''" "covers b net W pp r'' y" by blast
  with running_process.detailed.reach_step [OF _ r'(1)] show ?case by blast
qed

lemma launched_covers:
  assumes "started_proxy st = start 1 pp"
  shows "covers b net W pp (running_launched interval st) (forward_start 1 pp)"
proof -
  have "joined b net W pp (running_launched interval st)"
    using running_process.reach_abstract [OF running_launch running_start_joined(1) [OF assms]] by blast
  then show ?thesis
    using running_start_joined(2) [OF assms] by (simp add: covers_def running_launched_def launched_simps)
qed


section \<open>Properties\<close>

lemma running_halves:
  assumes "run b w f command = Serving st be"
    and "running_reachable b net W enc timeout (running_start (timedReload f) st) r"
  shows "joined b net W (command = ServerCommand \<and> serverProxyProtocol f) r"
    and "process_reachable b net W (serving f st) (proc r)"
    and "forward_reachable net enc timeout (forward_start 1 (command = ServerCommand \<and> serverProxyProtocol f)) (data r)"
proof -
  let ?pp = "command = ServerCommand \<and> serverProxyProtocol f"
  have st: "started_proxy st = start 1 ?pp"
    using assms(1) by (rule run_started_proxy)
  note start = running_start_joined(1) [OF st, of b net W "timedReload f"]
  have "proc (running_start (timedReload f) st) = serving f st" by (simp add: running_start_def)
  with running_process.reach_abstract [OF assms(2) start]
  show "joined b net W ?pp r" "process_reachable b net W (serving f st) (proc r)" by simp_all
  from running_data.reach_abstract [OF assms(2) start] running_start_joined(2) [OF st]
  show "forward_reachable net enc timeout (forward_start 1 ?pp) (data r)" by simp
qed





lemma running_shows_data:
  assumes "run b w f command = Serving st be" and "undisturbed x"
    and "forward_reachable net enc timeout (forward_start 1 (command = ServerCommand \<and> serverProxyProtocol f)) x"
  shows "\<exists>r. running_reachable b net W enc timeout (running_start (timedReload f) st) r \<and> data r = x"
proof -
  from running_covers_data [OF assms(3,2) launched_covers [OF run_started_proxy [OF assms(1)], of b net W "timedReload f"]]
  obtain r where "running_reachable b net W enc timeout (running_launched (timedReload f) st) r" "data r = x"
    by (auto simp: covers_def)
  with running_process.detailed.reach_trans [OF running_launch this(1)] show ?thesis by blast
qed



end
