(* ===== verification/Startup.thy ===== *)
theory Startup
  imports Samples
begin

text \<open>
  \<open>src/main.go\<close>: start-up as a sequence of effects.

  \<open>Ghostunnel.run\<close> says what \<open>run\<close> returns; here the same functions are written with the effects
  they have on the way, in the order of the code: the goroutines that report metrics, the
  goroutine of the timed reload, the sockets that are opened and the call of \<open>Accept\<close>. An effect
  is recorded when it has happened; a socket that cannot be opened leaves no effect. Both models
  agree on the result.
\<close>


section \<open>Computations with effects\<close>

datatype effect =
    RaiseLimit "64 word"
  | StartGraphite string string
  | StartPrometheus string
  | NewMetrics string string int CertPool
  | BuildCertificate
  | StartReloader int
  | OpenListener string string
  | SetUnlinkOnClose
  | OpenStatusListener string string
  | ServeStatus
  | StartAccept
  | MarkListening

type_synonym 'a traced = "effect list \<times> 'a outcome"

definition return :: "'a \<Rightarrow> 'a traced" where
  "return x = ([], Value x)"

definition lift_result :: "'a result \<Rightarrow> 'a traced" where
  "lift_result r = ([], case r of Inl err \<Rightarrow> Failure err | Inr x \<Rightarrow> Value x)"

definition emit :: "effect list \<Rightarrow> unit traced" where
  "emit es = (es, Value ())"

text \<open>An action that has its effects only if there is no error.\<close>

definition attempt :: "effect list \<Rightarrow> error option \<Rightarrow> unit traced" where
  "attempt es err = (case err of None \<Rightarrow> (es, Value ()) | Some e \<Rightarrow> ([], Failure e))"

definition bind :: "'a traced \<Rightarrow> ('a \<Rightarrow> 'b traced) \<Rightarrow> 'b traced" where
  "bind m k =
     (case m of
        (es, Value x) \<Rightarrow> (es @ fst (k x), snd (k x))
      | (es, Failure err) \<Rightarrow> (es, Failure err)
      | (es, Panic p) \<Rightarrow> (es, Panic p))"

lemma snd_bind:
  "snd (bind m k) = (case snd m of Value x \<Rightarrow> snd (k x) | Failure err \<Rightarrow> Failure err | Panic p \<Rightarrow> Panic p)"
  by (cases m; cases "snd m") (simp_all add: bind_def)

lemma fst_bind:
  "fst (bind m k) = fst m @ (case snd m of Value x \<Rightarrow> fst (k x) | _ \<Rightarrow> [])"
  by (cases m; cases "snd m") (simp_all add: bind_def)

lemma traced_simps [simp]:
  "snd (return x) = Value x" "fst (return x) = []" "snd (emit es) = Value ()" "fst (emit es) = es"
  "fst (lift_result r) = []" "snd (lift_result r) = (case r of Inl err \<Rightarrow> Failure err | Inr x \<Rightarrow> Value x)"
  "snd (attempt es err) = (case err of None \<Rightarrow> Value () | Some e \<Rightarrow> Failure e)"
  "fst (attempt es err) = (case err of None \<Rightarrow> es | Some e \<Rightarrow> [])"
  by (simp_all add: return_def emit_def lift_result_def attempt_def split: option.split)


section \<open>The listeners\<close>

definition serveStatus_traced :: "world \<Rightarrow> flags \<Rightarrow> Context \<Rightarrow> (Context \<times> status_server) traced" where
  "serveStatus_traced w f ctx =
     bind (lift_result (buildConfig w (enabledCipherSuites f) (caBundlePath f))) (\<lambda>config.
     let config = config\<lparr>ClientAuth := NoClientCert\<rparr>;
         config = (if cert ctx \<noteq> None then config\<lparr>config_GetCertificate := Some GetCertificate\<rparr> else config) in
     bind (lift_result (parseUnixOrTCPAddress w (statusAddress f))) (\<lambda>(network, address, _).
     bind (if network = ''unix''
           then (if listen_error w network address = None
                 then emit [OpenStatusListener network address, SetUnlinkOnClose]
                 else ([], Panic ''interface conversion: net.Listener is nil''))
           else attempt [OpenStatusListener network address] (listen_error w network address)) (\<lambda>_.
     bind (emit [ServeStatus]) (\<lambda>_.
     return (ctx\<lparr>statusHTTP := True\<rparr>,
       \<lparr>status_network = network, status_address = address,
        status_tls = (if network \<noteq> ''unix'' then Some config else None), status_routes = status_mux f\<rparr>)))))"

definition serveStatus_if_set_traced ::
  "world \<Rightarrow> flags \<Rightarrow> Context \<Rightarrow> (Context \<times> status_server option) traced" where
  "serveStatus_if_set_traced w f ctx =
     (if statusAddress f \<noteq> [] then bind (serveStatus_traced w f ctx) (\<lambda>(ctx, s). return (ctx, Some s))
      else return (ctx, None))"

definition serverListen_traced :: "world \<Rightarrow> flags \<Rightarrow> Context \<Rightarrow> started traced" where
  "serverListen_traced w f ctx =
     bind (lift_result (buildConfig w (enabledCipherSuites f) (caBundlePath f))) (\<lambda>config.
     bind (lift_result (CompileList (serverAllowedURIs f))) (\<lambda>allowedURIs.
     bind (if cert ctx = None then ([], Panic nil_dereference) else return ()) (\<lambda>_.
     let config = config\<lparr>config_GetCertificate := Some GetCertificate\<rparr>;
         config = config\<lparr>config_VerifyPeerCertificate :=
           Some (VerifyPeerCertificateServer (serverACL f allowedURIs))\<rparr>;
         config = (if serverDisableAuth f then config\<lparr>ClientAuth := NoClientCert\<rparr> else config) in
     bind (attempt [OpenListener ''tcp'' (serverListenAddress f)] (listen_error w ''tcp'' (serverListenAddress f))) (\<lambda>_.
     let p = New 1;
         p = (if serverProxyProtocol f then EnableProxyProtocol p else p) in
     bind (serveStatus_if_set_traced w f ctx) (\<lambda>(ctx, stat).
     bind (emit [StartAccept]) (\<lambda>_.
     bind (emit [MarkListening]) (\<lambda>_.
     return \<lparr>listen_network = ''tcp'', listen_address = serverListenAddress f,
       listen_tls = Some config, unlink_on_close = False, started_proxy = p,
       started_status = stat, started_context = ctx\<lparr>status := Listening (status ctx)\<rparr>\<rparr>)))))))"

definition clientListen_traced :: "world \<Rightarrow> flags \<Rightarrow> Context \<Rightarrow> started traced" where
  "clientListen_traced w f ctx =
     bind (lift_result (parseUnixOrTCPAddress w (clientListenAddress f))) (\<lambda>(network, address, _).
     bind (attempt [OpenListener network address] (listen_error w network address)) (\<lambda>_.
     bind (emit (if network = ''unix'' then [SetUnlinkOnClose] else [])) (\<lambda>_.
     bind (serveStatus_if_set_traced w f ctx) (\<lambda>(ctx, stat).
     bind (emit [StartAccept]) (\<lambda>_.
     bind (emit [MarkListening]) (\<lambda>_.
     return \<lparr>listen_network = network, listen_address = address, listen_tls = None,
       unlink_on_close = (network = ''unix''), started_proxy = New 1, started_status = stat,
       started_context = ctx\<lparr>status := Listening (status ctx)\<rparr>\<rparr>))))))"


section \<open>run\<close>

definition option_error :: "error option \<Rightarrow> unit traced" where
  "option_error err = attempt [] err"

definition run_server_traced :: "world \<Rightarrow> flags \<Rightarrow> Certificate option \<Rightarrow> (started \<times> backend) traced" where
  "run_server_traced w f certificate =
     bind (option_error (serverValidateFlags f)) (\<lambda>_.
     bind (lift_result (serverBackendDialer w f)) (\<lambda>dial.
     bind (emit [StartReloader (timedReload f)]) (\<lambda>_.
     bind (serverListen_traced w f (new_context f certificate)) (\<lambda>st.
     return (st, dial)))))"

definition run_client_traced :: "world \<Rightarrow> flags \<Rightarrow> Certificate option \<Rightarrow> (started \<times> backend) traced" where
  "run_client_traced w f certificate =
     bind (option_error (clientValidateFlags f)) (\<lambda>_.
     bind (lift_result (parseUnixOrTCPAddress w (clientForwardAddress f))) (\<lambda>(network, address, host).
     bind (lift_result (clientBackendDialer w f certificate network address host)) (\<lambda>dial.
     bind (emit [StartReloader (timedReload f)]) (\<lambda>_.
     bind (clientListen_traced w f (new_context f certificate)) (\<lambda>st.
     return (st, dial))))))"

definition run_command :: "world \<Rightarrow> flags \<Rightarrow> Certificate option \<Rightarrow> command \<Rightarrow> (started \<times> backend) traced" where
  "run_command w f certificate command =
     (case command of
        ServerCommand \<Rightarrow> run_server_traced w f certificate
      | ClientCommand \<Rightarrow> run_client_traced w f certificate
      | UnknownCommand \<Rightarrow> lift_result (Inl ''unknown command''))"

text \<open>The reporters of metrics that are started before the certificate is loaded.\<close>

definition start_metrics :: "flags \<Rightarrow> effect list" where
  "start_metrics f =
     (case metricsGraphite f of None \<Rightarrow> [] | Some addr \<Rightarrow> [StartGraphite (metricsPrefix f) addr]) @
     [StartPrometheus (metricsPrefix f)]"

text \<open>From the parsed flags on; the two exits before that (bad flags, no syslog) have no effects.\<close>

definition run_body :: "build \<Rightarrow> world \<Rightarrow> flags \<Rightarrow> command \<Rightarrow> (started \<times> backend) traced" where
  "run_body b w f command =
     bind (if fdLimit f > 0 then attempt [RaiseLimit (fdLimit f)] (Raise b w (fdLimit f)) else return ()) (\<lambda>_.
     bind (emit (start_metrics f)) (\<lambda>_.
     bind (lift_result (caBundle w (caBundlePath f))) (\<lambda>ca.
     bind (emit [NewMetrics (metricsURL f) (metricsPrefix f) (metricsInterval f) ca]) (\<lambda>_.
     bind ([], buildCertificate b w f (keystorePath f) (keystorePass f)) (\<lambda>certificate.
     bind (emit [BuildCertificate]) (\<lambda>_.
     run_command w f certificate command))))))"

fun run_result_of :: "(started \<times> backend) outcome \<Rightarrow> run_result" where
  "run_result_of (Value (st, be)) = Serving st be"
| "run_result_of (Failure err) = RunError err"
| "run_result_of (Panic p) = RunPanic p"

definition run_traced :: "build \<Rightarrow> world \<Rightarrow> flags \<Rightarrow> command \<Rightarrow> effect list \<times> run_result" where
  "run_traced b w parsed command =
     (let f = init_flags b parsed in
      if validateFlags f \<noteq> None then ([], ExitProcess 1)
      else if initLogger w (useSyslog b f) \<noteq> None then ([], ExitProcess 1)
      else apsnd run_result_of (run_body b w f command))"


section \<open>Agreement with the model without effects\<close>

lemma serveStatus_traced_result: "snd (serveStatus_traced w f c) = serveStatus w f c"
  by (simp add: serveStatus_traced_def serveStatus_def snd_bind Let_def split: sum.split prod.split option.split)

lemma serveStatus_if_set_traced_result: "snd (serveStatus_if_set_traced w f c) = serveStatus_if_set w f c"
  by (cases "serveStatus w f c")
    (simp_all add: serveStatus_if_set_traced_def serveStatus_if_set_def snd_bind serveStatus_traced_result split: prod.split)

lemma serverListen_traced_result: "snd (serverListen_traced w f c) = serverListen w f c"
  by (cases "serveStatus_if_set w f c")
    (simp_all add: serverListen_traced_def serverListen_def snd_bind Let_def serveStatus_if_set_traced_result
      split: sum.split option.split prod.split)

lemma clientListen_traced_result: "snd (clientListen_traced w f c) = clientListen w f c"
  by (cases "serveStatus_if_set w f c")
    (simp_all add: clientListen_traced_def clientListen_def snd_bind serveStatus_if_set_traced_result
      split: sum.split option.split prod.split)

lemma run_server_traced_result: "run_result_of (snd (run_server_traced w f k)) = run_server w f k"
  by (cases "serverListen w f (new_context f k)")
    (simp_all add: run_server_traced_def run_server_def option_error_def snd_bind serverListen_traced_result
      split: option.split sum.split)

lemma run_client_traced_result: "run_result_of (snd (run_client_traced w f k)) = run_client w f k"
  by (cases "clientListen w f (new_context f k)")
    (simp_all add: run_client_traced_def run_client_def option_error_def snd_bind clientListen_traced_result
      split: option.split sum.split prod.split)

lemma run_traced_result: "snd (run_traced b w f command) = run b w f command"
proof -
  have body: "run_result_of (snd (run_body b w g command)) =
      (case (if fdLimit g > 0 then Raise b w (fdLimit g) else None) of
         Some err \<Rightarrow> RunError err
       | None \<Rightarrow>
           (case caBundle w (caBundlePath g) of
              Inl err \<Rightarrow> RunError err
            | Inr ca \<Rightarrow>
                (case buildCertificate b w g (keystorePath g) (keystorePass g) of
                   Failure err \<Rightarrow> RunError err
                 | Panic p \<Rightarrow> RunPanic p
                 | Value k \<Rightarrow>
                     (case command of
                        ServerCommand \<Rightarrow> run_server w g k
                      | ClientCommand \<Rightarrow> run_client w g k
                      | UnknownCommand \<Rightarrow> RunError ''unknown command''))))" for g
    by (cases command)
      (simp_all add: run_body_def run_command_def snd_bind run_server_traced_result run_client_traced_result
        split: option.split sum.split outcome.split)
  show ?thesis
    by (simp add: run_traced_def run_def Let_def body)
qed


section \<open>The effects\<close>

definition opened_status :: "status_server option \<Rightarrow> effect list" where
  "opened_status stat =
     (case stat of
        None \<Rightarrow> []
      | Some s \<Rightarrow> OpenStatusListener (status_network s) (status_address s) #
          (if status_network s = ''unix'' then [SetUnlinkOnClose] else []) @ [ServeStatus])"

definition opened_listener :: "started \<Rightarrow> effect list" where
  "opened_listener st =
     OpenListener (listen_network st) (listen_address st) # (if unlink_on_close st then [SetUnlinkOnClose] else []) @
     opened_status (started_status st) @ [StartAccept, MarkListening]"

lemma serveStatus_effects:
  "serveStatus_if_set w f c = Value (c', stat) \<Longrightarrow> fst (serveStatus_if_set_traced w f c) = opened_status stat"
  by (auto simp: serveStatus_if_set_def serveStatus_def serveStatus_if_set_traced_def serveStatus_traced_def Let_def
      fst_bind snd_bind opened_status_def split: if_splits sum.splits option.splits prod.splits)

lemma serverListen_effects:
  assumes "serverListen w f c = Value st"
  shows "fst (serverListen_traced w f c) = opened_listener st"
proof -
  from assms obtain config uris c' stat where *: "buildConfig w (enabledCipherSuites f) (caBundlePath f) = Inr config"
      "CompileList (serverAllowedURIs f) = Inr uris" "cert c \<noteq> None" "listen_error w ''tcp'' (serverListenAddress f) = None"
      "serveStatus_if_set w f c = Value (c', stat)" "started_status st = stat" "listen_network st = ''tcp''"
      "listen_address st = serverListenAddress f" "\<not> unlink_on_close st"
    by (auto simp: serverListen_def Let_def split: sum.splits option.splits if_splits)
  with serveStatus_effects [OF *(5)] show ?thesis
    by (simp add: serverListen_traced_def fst_bind snd_bind Let_def serveStatus_if_set_traced_result opened_listener_def)
qed

lemma clientListen_effects:
  assumes "clientListen w f c = Value st"
  shows "fst (clientListen_traced w f c) = opened_listener st"
proof -
  from assms obtain network address host c' stat where *:
      "parseUnixOrTCPAddress w (clientListenAddress f) = Inr (network, address, host)"
      "listen_error w network address = None" "serveStatus_if_set w f c = Value (c', stat)" "started_status st = stat"
      "listen_network st = network" "listen_address st = address" "unlink_on_close st = (network = ''unix'')"
    by (auto simp: clientListen_def split: sum.splits option.splits)
  with serveStatus_effects [OF *(3)] show ?thesis
    by (simp add: clientListen_traced_def fst_bind snd_bind serveStatus_if_set_traced_result opened_listener_def)
qed

text \<open>Effects that a start-up which does not reach its end cannot have.\<close>

definition started_effects :: "effect set" where
  "started_effects = {StartAccept, MarkListening}"

lemma serveStatus_traced_not_started: "set (fst (serveStatus_if_set_traced w f c)) \<inter> started_effects = {}"
  by (auto simp: serveStatus_if_set_traced_def serveStatus_traced_def fst_bind snd_bind started_effects_def Let_def
      split: sum.splits option.splits prod.splits outcome.splits if_splits)

lemma serverListen_failed_effects:
  assumes "\<And>st. serverListen w f c \<noteq> Value st"
  shows "set (fst (serverListen_traced w f c)) \<inter> started_effects = {}"
proof (cases "serveStatus_if_set w f c")
  case (Value r)
  obtain c' stat where r: "r = (c', stat)" by fastforce
  have "\<not> succeeded (snd (serverListen_traced w f c))"
    using assms by (simp add: serverListen_traced_result succeeded_iff)
  with Value r show ?thesis
    unfolding serverListen_traced_def Let_def
    by (cases "buildConfig w (enabledCipherSuites f) (caBundlePath f)"; cases "CompileList (serverAllowedURIs f)";
        cases "cert c"; cases "listen_error w ''tcp'' (serverListenAddress f)")
      (simp_all add: fst_bind snd_bind serveStatus_if_set_traced_result)
qed (use serveStatus_traced_not_started [of w f c] in
    \<open>auto simp: serverListen_traced_def fst_bind snd_bind Let_def serveStatus_if_set_traced_result started_effects_def
      split: sum.split option.split\<close>)

lemma clientListen_failed_effects:
  assumes "\<And>st. clientListen w f c \<noteq> Value st"
  shows "set (fst (clientListen_traced w f c)) \<inter> started_effects = {}"
proof (cases "serveStatus_if_set w f c")
  case (Value r)
  obtain c' stat where r: "r = (c', stat)" by fastforce
  have snd: "\<not> succeeded (snd (clientListen_traced w f c))"
    using assms by (simp add: clientListen_traced_result succeeded_iff)
  show ?thesis
  proof (cases "parseUnixOrTCPAddress w (clientListenAddress f)")
    case (Inr parsed)
    obtain network address host where "parsed = (network, address, host)" by (cases parsed)
    with Inr Value r snd show ?thesis
      unfolding clientListen_traced_def
      by (cases "listen_error w network address") (simp_all add: fst_bind snd_bind serveStatus_if_set_traced_result)
  qed (simp add: clientListen_traced_def fst_bind)
qed (use serveStatus_traced_not_started [of w f c] in
    \<open>auto simp: clientListen_traced_def fst_bind snd_bind serveStatus_if_set_traced_result started_effects_def
      split: sum.split option.split prod.split\<close>)

definition startup_trace :: "flags \<Rightarrow> CertPool \<Rightarrow> started \<Rightarrow> effect list" where
  "startup_trace f ca st =
     (if fdLimit f > 0 then [RaiseLimit (fdLimit f)] else []) @ start_metrics f @
     [NewMetrics (metricsURL f) (metricsPrefix f) (metricsInterval f) ca, BuildCertificate,
      StartReloader (timedReload f)] @ opened_listener st"

text \<open>What the effects of a computation that ends in a running process are, after those of \<open>pre\<close>.\<close>

definition effects_ok :: "effect list \<Rightarrow> (started \<times> backend) traced \<Rightarrow> bool" where
  "effects_ok pre m \<longleftrightarrow>
     (case snd m of
        Value (st, be) \<Rightarrow> fst m = pre @ opened_listener st
      | _ \<Rightarrow> set (fst m) \<inter> started_effects = {})"

lemma run_server_effects:
  "effects_ok [StartReloader (timedReload f)] (run_server_traced w f k)"
proof (cases "serverListen w f (new_context f k)")
  case (Value st)
  with serverListen_effects [OF Value] show ?thesis
    by (simp add: effects_ok_def run_server_traced_def option_error_def fst_bind snd_bind serverListen_traced_result
        split: option.split sum.split)
qed (use serverListen_failed_effects [of w f "new_context f k"] in
    \<open>auto simp: effects_ok_def run_server_traced_def option_error_def fst_bind snd_bind serverListen_traced_result started_effects_def
      split: option.split sum.split\<close>)

lemma run_client_effects:
  "effects_ok [StartReloader (timedReload f)] (run_client_traced w f k)"
proof (cases "clientListen w f (new_context f k)")
  case (Value st)
  with clientListen_effects [OF Value] show ?thesis
    by (simp add: effects_ok_def run_client_traced_def option_error_def fst_bind snd_bind clientListen_traced_result
        split: option.split sum.split prod.split)
qed (use clientListen_failed_effects [of w f "new_context f k"] in
    \<open>auto simp: effects_ok_def run_client_traced_def option_error_def fst_bind snd_bind clientListen_traced_result started_effects_def
      split: option.split sum.split prod.split\<close>)


lemma run_command_effects: "effects_ok [StartReloader (timedReload f)] (run_command w f k command)"
proof (cases command)
  case ServerCommand
  then show ?thesis by (simp add: run_command_def run_server_effects)
next
  case ClientCommand
  then show ?thesis by (simp add: run_command_def run_client_effects)
qed (simp add: run_command_def effects_ok_def)

lemma effects_ok_prefix:
  assumes "effects_ok pre m" and "set es \<inter> started_effects = {}"
  shows "effects_ok (es @ pre) (es @ fst m, snd m)"
  using assms by (cases "snd m") (auto simp: effects_ok_def)

definition before_command :: "flags \<Rightarrow> CertPool \<Rightarrow> effect list" where
  "before_command f ca =
     (if fdLimit f > 0 then [RaiseLimit (fdLimit f)] else []) @ start_metrics f @
     [NewMetrics (metricsURL f) (metricsPrefix f) (metricsInterval f) ca, BuildCertificate]"

lemma before_command_not_started: "set (before_command f ca) \<inter> started_effects = {}"
  by (auto simp: before_command_def start_metrics_def started_effects_def split: option.splits)

lemma run_body_effects:
  "\<exists>ca. effects_ok (before_command f ca @ [StartReloader (timedReload f)]) (run_body b w f command) \<and>
     (succeeded (snd (run_body b w f command)) \<longrightarrow> caBundle w (caBundlePath f) = Inr ca)"
proof (cases "\<exists>ca k. caBundle w (caBundlePath f) = Inr ca \<and>
    buildCertificate b w f (keystorePath f) (keystorePass f) = Value k \<and>
    (fdLimit f > 0 \<longrightarrow> Raise b w (fdLimit f) = None)")
  case True
  then obtain ca k where ok: "caBundle w (caBundlePath f) = Inr ca"
    "buildCertificate b w f (keystorePath f) (keystorePass f) = Value k"
    "fdLimit f > 0 \<longrightarrow> Raise b w (fdLimit f) = None" by blast
  then have "run_body b w f command =
      (before_command f ca @ fst (run_command w f k command), snd (run_command w f k command))"
    by (auto simp: run_body_def before_command_def prod_eq_iff fst_bind snd_bind)
  with effects_ok_prefix [OF run_command_effects [of f w k command] before_command_not_started [of f ca]] ok(1)
  show ?thesis by (intro exI [of _ ca]) simp
next
  case False
  have m: "set (start_metrics f) \<inter> started_effects = {}"
    by (auto simp: start_metrics_def started_effects_def split: option.splits)
  with False have "\<not> succeeded (snd (run_body b w f command))" "set (fst (run_body b w f command)) \<inter> started_effects = {}"
    by (cases "buildCertificate b w f (keystorePath f) (keystorePass f)";
        auto simp: run_body_def fst_bind snd_bind started_effects_def split: option.splits sum.splits if_splits)+
  then show ?thesis by (auto simp: effects_ok_def succeeded_iff split: outcome.split)
qed


section \<open>Properties\<close>

lemma run_traced_effects:
  "(case run b w f command of
      Serving st be \<Rightarrow>
        (\<exists>ca. caBundle w (caBundlePath f) = Inr ca \<and> fst (run_traced b w f command) = startup_trace (init_flags b f) ca st)
    | _ \<Rightarrow> set (fst (run_traced b w f command)) \<inter> {StartAccept, MarkListening} = {})"
proof -
  let ?g = "init_flags b f"
  obtain ca where "effects_ok (before_command ?g ca @ [StartReloader (timedReload ?g)]) (run_body b w ?g command)"
      "succeeded (snd (run_body b w ?g command)) \<longrightarrow> caBundle w (caBundlePath f) = Inr ca"
    using run_body_effects [of ?g b w command] by auto
  then show ?thesis
    unfolding run_traced_result [symmetric] run_traced_def Let_def
    by (cases "snd (run_body b w ?g command)")
      (auto simp: effects_ok_def started_effects_def startup_trace_def before_command_def)
qed

text \<open>
  C20. The order of start-up. A process that serves has, in this order: raised the file limit (if
  asked), started the reporters of metrics, built the certificate, started the timed reload,
  opened the listener, opened and served the status port (if set), started to accept, and marked
  itself as listening; and nothing else. A start-up that fails, exits or panics never accepts a
  connection and never reports that it listens. The result is the one of \<open>run\<close>.
\<close>

theorem startup_order:
  "snd (run_traced b w f command) = run b w f command \<and>
   (case run b w f command of
      Serving st be \<Rightarrow>
        (\<exists>ca. caBundle w (caBundlePath f) = Inr ca \<and> fst (run_traced b w f command) = startup_trace (init_flags b f) ca st)
    | _ \<Rightarrow> set (fst (run_traced b w f command)) \<inter> {StartAccept, MarkListening} = {})"
  using run_traced_result run_traced_effects by (rule conjI)

text \<open>Effects that open a socket.\<close>

fun opens_socket :: "effect \<Rightarrow> bool" where
  "opens_socket (OpenListener network address) = True"
| "opens_socket (OpenStatusListener network address) = True"
| "opens_socket _ = False"

lemma in_bind:
  "e \<in> set (fst (bind m k)) \<longleftrightarrow> e \<in> set (fst m) \<or> (\<exists>x. snd m = Value x \<and> e \<in> set (fst (k x)))"
  by (cases "snd m") (auto simp: fst_bind)

lemma server_opens:
  assumes "e \<in> set (fst (run_server_traced w f k))" and "opens_socket e"
  shows "serverValidateFlags f = None \<and> k \<noteq> None"
  using assms
  by (auto simp: run_server_traced_def serverListen_traced_def option_error_def new_context_def in_bind
      split: option.splits if_splits)

lemma client_opens:
  assumes "e \<in> set (fst (run_client_traced w f k))" and "opens_socket e"
  shows "clientValidateFlags f = None"
  using assms by (auto simp: run_client_traced_def option_error_def in_bind split: option.splits)

text \<open>
  No socket is opened before everything it depends on is in order: a listener or a status
  port is opened only after the flags of the mode have been accepted and the certificate has
  been built, and in server mode only with a certificate.
\<close>

theorem sockets_need_valid_flags:
  assumes "e \<in> set (fst (run_traced b w f command))" and "opens_socket e"
  shows "validateFlags (init_flags b f) = None \<and>
    (\<exists>k. buildCertificate b w (init_flags b f) (keystorePath f) (keystorePass f) = Value k \<and>
      (command = ServerCommand \<and> serverValidateFlags (init_flags b f) = None \<and> k \<noteq> None \<or>
       command = ClientCommand \<and> clientValidateFlags (init_flags b f) = None))"
proof -
  let ?g = "init_flags b f"
  from assms(1) have v: "validateFlags ?g = None" and e: "e \<in> set (fst (run_body b w ?g command))"
    by (auto simp: run_traced_def Let_def split: if_splits)
  have "\<not> opens_socket x" if "x \<in> set (start_metrics ?g)" for x
    using that by (auto simp: start_metrics_def split: option.splits)
  with e assms(2) obtain k where k: "buildCertificate b w ?g (keystorePath f) (keystorePass f) = Value k"
      "e \<in> set (fst (run_command w ?g k command))"
    by (auto simp: run_body_def in_bind split: if_splits option.splits)
  with v assms(2) server_opens client_opens show ?thesis
    by (cases command) (auto simp: run_command_def)
qed

theorem sockets_need_valid_flags_witness:
  "OpenListener ''tcp'' (serverListenAddress sample_server) \<in> set (fst (run_traced sample_build sample_world sample_server ServerCommand)) \<and>
   serverValidateFlags (init_flags sample_build sample_server) = None"
proof -
  obtain st be where st: "run sample_build sample_world sample_server ServerCommand = Serving st be"
    using sample_serving_runs unfolding sample_serving_def by blast
  have "listen_network st = ''tcp''" "listen_address st = serverListenAddress (init_flags sample_build sample_server)"
    using st by (elim run_Serving; auto elim!: run_server_Serving simp: serverListen_def Let_def
        split: sum.splits option.splits if_splits)+
  moreover obtain ca where "fst (run_traced sample_build sample_world sample_server ServerCommand) =
      startup_trace (init_flags sample_build sample_server) ca st"
    using run_traced_effects [of sample_build sample_world sample_server ServerCommand] st by auto
  ultimately have "OpenListener ''tcp'' (serverListenAddress sample_server) \<in> set (fst (run_traced sample_build sample_world sample_server ServerCommand))"
    by (simp add: startup_trace_def opened_listener_def)
  with sockets_need_valid_flags [OF this] show ?thesis by auto
qed

end
