(* ===== verification/Peers.thy ===== *)
theory Peers
  imports Samples
begin

text \<open>
  What the proxy of a started process can meet: the two sides of the proxy, \<open>listener\<close> and
  \<open>dial\<close>, as \<open>run\<close> has set them up. This joins the listener and the backend of \<open>src/main.go\<close>, the
  dialer of \<open>src/certloader\<close> and the rules of \<open>crypto/tls\<close> with the step relation of the proxy.

  A listener of the network \<open>tcp\<close> or \<open>unix\<close> returns connections of that network, with addresses
  of that network; \<open>tls.NewListener\<close> wraps them. Handshakes and dials happen at different times,
  each in a world of the set \<open>W\<close>.
\<close>

text \<open>How the handshake of a client dialer with a server that presents \<open>certs\<close> can end, in the world of
  the moment.\<close>

definition client_handshakes :: "world \<Rightarrow> tls_Config \<Rightarrow> string list \<Rightarrow> error option \<Rightarrow> bool" where
  "client_handshakes now config certs r \<longleftrightarrow>
     (case r of Some _ \<Rightarrow> True | None \<Rightarrow> client_authenticates now config certs = Value ())"

definition network_conn :: "string \<Rightarrow> conn_kind" where
  "network_conn network = (if network = ''unix'' then UnixConn else TCPConn)"

fun network_addr :: "string \<Rightarrow> net_addr \<Rightarrow> bool" where
  "network_addr network (UnixAddr path) \<longleftrightarrow> network = ''unix''"
| "network_addr network (TCPAddr ip port) \<longleftrightarrow> network \<noteq> ''unix''"

definition accepted_conn :: "started \<Rightarrow> conn_kind \<Rightarrow> net_addr \<Rightarrow> net_addr \<Rightarrow> bool" where
  "accepted_conn st k remote local \<longleftrightarrow>
     k = (if listen_tls st = None then network_conn (listen_network st) else TLSConn) \<and>
     network_addr (listen_network st) remote \<and> network_addr (listen_network st) local"

definition accepted_handshake :: "world set \<Rightarrow> started \<Rightarrow> string list \<Rightarrow> bool" where
  "accepted_handshake W st certs \<longleftrightarrow>
     (case listen_tls st of
        None \<Rightarrow> False
      | Some config \<Rightarrow> \<exists>now\<in>W. server_authenticates now config certs = Value ())"

fun dialed_conn :: "world set \<Rightarrow> backend \<Rightarrow> conn_kind \<Rightarrow> string list \<Rightarrow> bool" where
  "dialed_conn W (PlainBackend network address timeout) k certs \<longleftrightarrow>
     k = network_conn network \<and> certs = [] \<and> (\<exists>now\<in>W. dial_error now network address = None)"
| "dialed_conn W (TLSBackend d network address) k certs \<longleftrightarrow>
     k = TLSConn \<and>
     (\<exists>now\<in>W. mtlsDialer_Dial now (client_handshakes now (dialer_config d) certs) d network address (Inr ()))"

definition process_peers :: "world set \<Rightarrow> started \<Rightarrow> backend \<Rightarrow> peers" where
  "process_peers W st be =
     \<lparr>listener_returns = accepted_conn st, handshake_accepts = accepted_handshake W st,
      dial_returns = dialed_conn W be\<rparr>"

lemma process_peers_simps [simp]:
  "listener_returns (process_peers W st be) = accepted_conn st"
  "handshake_accepts (process_peers W st be) = accepted_handshake W st"
  "dial_returns (process_peers W st be) = dialed_conn W be"
  by (simp_all add: process_peers_def)

text \<open>The header of the proxy protocol can be built for connections of a TCP listener.\<close>

lemma tcp_conn_header:
  assumes "conn_inv (process_peers W st be) c" and "listen_network st = ''tcp''"
  shows "\<not> bad_header p c"
  using assms
  by (auto simp: conn_inv_def accepted_conn_def bad_header_def getProxyProtoHeaderFor_def split: net_addr.splits)

end
