(* ===== verification/Spec2Isabelle.thy ===== *)
theory Spec2Isabelle
  imports Dataplane Startup Peers
begin

text \<open>
  Ghostunnel: a TLS proxy, verified.

  \<^bold>\<open>The program.\<close> Ghostunnel accepts connections on one side and forwards them to a backend on the
  other. In server mode it terminates TLS and forwards to a plain local service; in client mode it
  accepts plain local connections and forwards them over TLS. Its parts are: the command line and
  its validation (\<open>src/main.go\<close>), the TLS configuration (\<open>src/tls.go\<close>), reloadable certificates and
  the TLS dialer (\<open>src/certloader\<close>), the access control list (\<open>src/auth\<close>) with its URI patterns
  (\<open>src/wildcard\<close>), the forwarding proxy (\<open>src/proxy\<close>), the status endpoint (\<open>src/status.go\<close>), the
  signal handler (\<open>src/signals.go\<close>, \<open>src/unix.go\<close>, \<open>src/windows.go\<close>) and the file limit
  (\<open>src/fdlimit\<close>). \<open>run\<close> reads the flags, loads the certificate, builds the TLS configuration with
  the callbacks of the certificate and of the access control list, opens the listener, starts the
  proxy, and leaves the rest to the signal handler and to \<open>Wait\<close>.

  \<^bold>\<open>The theories.\<close>
  \<^item> \<open>Prelude\<close>: Go errors, results and panics (\<open>result\<close>, \<open>outcome\<close>), and lemmas on lists.
  \<^item> \<open>Transitions\<close>: step relations as the locales \<open>transition_system\<close> (invariants, the cause of a
    change), \<open>completing_system\<close> (a measure that lets every run be completed) and \<open>simulation\<close> (a
    detailed system that implements an abstract one), interpreted on the dialer, the proxy, the proxy
    with its data, the process, and the process with its data.
  \<^item> \<open>Go_Strings\<close>, \<open>Go_Regexp\<close>, \<open>Go_Json\<close>: what the program uses of \<open>strings\<close>, \<open>unicode/utf8\<close>,
    \<open>regexp\<close> and \<open>encoding/json\<close>, on byte strings.
  \<^item> \<open>World\<close>: certificates, build configurations, and the record \<open>world\<close> of everything outside the
    program (files, sockets, certificate libraries). No law is assumed of it.
  \<^item> \<open>Wildcard\<close> (\<open>wildcard/matcher.go\<close>): the compiler from patterns to regular expressions. The
    specification is a relation between lists of path components; the main lemmas say that the
    compiled expression implements it, and which patterns compile.
  \<^item> \<open>Auth\<close> (\<open>auth/auth.go\<close>): the two callbacks. The locale \<open>uri_patterns\<close> is the contract with
    \<open>Wildcard\<close>, the locale \<open>peer_verifier\<close> the contract with \<open>crypto/tls\<close>; both are interpreted on
    the model of the code.
  \<^item> \<open>Certloader\<close> (\<open>certloader/*.go\<close> without the dialer): keystores, PKCS\#11 modules and keychain
    identities. The contract of the interface \<open>Certificate\<close> is the locale \<open>reloadable\<close>, interpreted
    for the three implementations and their sum.
  \<^item> \<open>Flags\<close>, \<open>Tls_Config\<close>, \<open>Validation\<close> (\<open>main.go\<close>, \<open>tls.go\<close>): the flags as a record, the cipher
    suites as 16-bit words, \<open>buildConfig\<close>, \<open>buildCertificate\<close>, the checks on flags, addresses with
    \<open>net.SplitHostPort\<close>, and the authentication of peers in \<open>crypto/tls\<close>.
  \<^item> \<open>Dialer\<close> (\<open>certloader/dialer.go\<close>): \<open>dialWithDialer\<close> as a step relation of three goroutines
    around a channel; safety, no leaks, and termination.
  \<^item> \<open>Status\<close> (\<open>status.go\<close>), \<open>Signals\<close> (\<open>signals.go\<close>, \<open>unix.go\<close>, \<open>windows.go\<close>), \<open>Fdlimit\<close>
    (\<open>fdlimit\<close>).
  \<^item> \<open>Copy\<close> and \<open>Proxy\<close> (\<open>proxy/proxy.go\<close>): copying and half-closing on one pair of connections, and
    the proxy as a step relation of all its goroutines (\<open>proxy_step\<close>, with \<open>conn_step\<close> for a
    handler). Invariants by rule induction give the theorems on \<open>Wait\<close>, the wait group, the
    counters, shutdown, termination of handlers and authentication.
  \<^item> \<open>Buffers\<close> and \<open>Forwarding\<close> (\<open>proxy/proxy.go\<close>): the same proxy with its data. \<open>Buffers\<close> has memory as
    an explicit store with \<open>bufferPool\<close>, and the steps of \<open>copyData\<close> on it; the locale \<open>pool_client\<close>
    is the contract by which copiers that share the pool leave each other alone, and the lemmas show
    that each of them does what \<open>CopyBuffer\<close> of \<open>Copy\<close> says. \<open>Forwarding\<close> adds the two streams of
    every connection, the header, the deadline of the handshake and the timers to the state of the
    proxy; it refines \<open>Proxy\<close> by a simulation, and shows that streams never mix, that buffers are in
    one hand, that expired handshakes are never forwarded and that connections can always end.
  \<^item> \<open>Ghostunnel\<close> (\<open>main.go\<close>): \<open>run\<close>, the two listeners, the status listener and the two backend
    dialers, as a function from build, world and flags to a started proxy.
  \<^item> \<open>Samples\<close>: a server and a client that start, for the witnesses.
  \<^item> \<open>Startup\<close> (\<open>main.go\<close>): the same functions with their effects, in the order of the code: file
    limit, metrics reporters, certificate, timed reload, sockets, \<open>Accept\<close>. Both models agree on the
    result; the lemmas give the exact trace of a successful start and what a failed start cannot do.
  \<^item> \<open>System\<close> (\<open>signals.go\<close> and the end of \<open>serverListen\<close> and \<open>clientListen\<close>): the running process, a
    step relation of the main goroutine (signals, reload, \<open>Shutdown\<close>, \<open>Wait\<close>, exit), the timed reload,
    the proxy, the channel of signals, the clock and the timer of the forced exit. A reload is four
    steps, so reloads of two goroutines overlap. The lemmas give when and how the process ends,
    which certificate it serves meanwhile, that the proxy in it behaves as the theory \<open>Proxy\<close> says,
    and that \<open>signalHandler\<close> of \<open>Signals\<close> is one of its runs.
    \<open>schedule\<close> executes the steps that do not depend on the network.
  \<^item> \<open>Dataplane\<close>: the process of \<open>System\<close> with the data of \<open>Forwarding\<close>, one step relation on one clock.
    It simulates both, so what holds of all states of either holds of the running program; before a
    shutdown it shows exactly the states that the data plane reaches by itself; and it can complete
    every shutdown while data is under way.
  \<^item> \<open>Peers\<close>: what the proxy of a started process can meet: the connections of its listener, the
    handshakes that \<open>crypto/tls\<close> accepts for its configuration, and the connections that its dialer
    returns. With it the process is the composition of all components.
  \<^item> This theory: what holds of the program as a whole. The locale \<open>authenticated_forwarding\<close> joins
    the proxy and its data with the TLS listener.

  \<^bold>\<open>Modelling choices.\<close> A Go error is the text it prints; a panic is a value. Pointers that may be
  nil are options. State that several goroutines share is changed by atomic steps that interleave
  freely; what peers, the network and the clock do is an open choice of the step relations, so the
  theorems hold for every behaviour of them. No model has fuel: every loop is a terminating
  function or a step relation, and termination is stated as well-foundedness together with the
  absence of other stuck states. Start-up runs in one world; every later operation (a reload, a
  handshake) has the world of its own moment. Ticks of the timed reload, which the code starts before
  the listeners are open, may come from then on. The relation of the proxy allows any number
  of callers of \<open>Shutdown\<close>; that the process has one is a theorem (\<open>process_carries_data\<close>). The
  clock of the process advances in arbitrary steps, so the only thing known of the forced exit is
  that it does not come before the timeout.

  \<^bold>\<open>What the code does not do.\<close> Some theorems record behaviour that differs from the documentation:
  in server mode client certificates are never requested (\<open>server_accepts_every_client\<close>, down to the bytes at the backend, while
  \<open>access_control_end_to_end\<close> shows that the rest of the chain would enforce the list), \<open>Wait\<close> does
  not count connections before they are fused, a reload without certificate and a failing unix
  status socket crash the process, a TLS source cuts the opposite direction, the descriptors of plain
  backend connections are never closed (\<open>backend_descriptors\<close>), and a timed reload that
  overlaps the reload of a signal can put the older certificate back; one that ends during start-up
  makes the status report that the process listens before it does. While the process starts and
  while it drains, its signals are not relayed, so a shutdown signal then kills it
  (\<open>process_abnormal_ends\<close>).

  \<^bold>\<open>Not modelled.\<close> Parsing of the command line (package kingpin), what the metrics reporters send and
  what is logged, the durations that the timers of the metrics record, the handlers of the profiler,
  and the vendored libraries; the bytes of a proxy protocol header are a parameter. Record layer and
  cryptography of TLS are outside: the streams of \<open>Forwarding\<close> are what \<open>Read\<close> and \<open>Write\<close> of the
  connections pass. Of \<open>crypto/tls\<close> the rules by which a peer is authenticated are modelled, of
  \<open>net/http\<close> the choice of the handler for a path. When the timer of the dialer fires is left open, so
  nothing is said about real time there; ticks of the timed reload before a start-up that fails are
  not followed. The lines of the source that no definition covers are licences, imports, comments
  and the log function of the proxy.
\<close>


section \<open>Authenticated forwarding\<close>

text \<open>
  The contract between the proxy and the TLS listener: connections that the handshake accepts
  have a property \<open>principal\<close> of their certificates. What the proxy then guarantees for the
  connections it forwards follows from its step relation.
\<close>

locale authenticated_forwarding =
  fixes net :: peers
    and principal :: "string list \<Rightarrow> bool"
  assumes accepted_principal: "handshake_accepts net certs \<Longrightarrow> principal certs"
begin

lemma forwarded_principal:
  assumes "forward_reachable net enc timeout (forward_start n pp) s" and "i < length (conns (control s))"
    and "kind (client (conns (control s) ! i)) = TLSConn"
    and "passed_handshake (stage (conns (control s) ! i)) \<or> client_received s i \<noteq> [] \<or> backend_received s i \<noteq> []"
  shows "principal (peer (conns (control s) ! i))"
  by (rule accepted_principal [OF reachable_peer_accepted [OF assms]])

end

text \<open>
  What the server side of \<open>crypto/tls\<close> establishes for a configuration with the verifier of an
  access control list.
\<close>

definition server_principal :: "world \<Rightarrow> tls_Config \<Rightarrow> ACL \<Rightarrow> string list \<Rightarrow> bool" where
  "server_principal w config acl certs \<longleftrightarrow>
     ClientAuth config = NoClientCert \<or>
     (\<exists>leaf chain vchains. x509_Verify w (ClientCAs config) [] certs = Inr ((leaf # chain) # vchains) \<and>
        (AllowAll acl \<or> principal_allowed acl leaf)) \<or>
     (\<exists>vchains. x509_Verify w (ClientCAs config) [] certs = Inr ([] # vchains) \<and> AllowAll acl)"

definition with_verifier :: "tls_Config \<Rightarrow> ACL \<Rightarrow> tls_Config" where
  "with_verifier config acl = config\<lparr>config_VerifyPeerCertificate := Some (VerifyPeerCertificateServer acl)\<rparr>"

lemma VerifyPeerCertificateServer_Value:
  "VerifyPeerCertificateServer acl raw vchains = Value () \<longleftrightarrow>
   (\<exists>leaf chain rest. vchains = (leaf # chain) # rest \<and> (AllowAll acl \<or> principal_allowed acl leaf)) \<or>
   (\<exists>rest. vchains = [] # rest \<and> AllowAll acl)"
proof (cases vchains)
  case (Cons first rest)
  then show ?thesis
    by (cases first) (auto simp: VerifyPeerCertificateServer_eq, auto simp: VerifyPeerCertificateServer_def split: if_splits)
qed simp

lemma VerifyPeerCertificateClient_Value:
  "VerifyPeerCertificateClient acl raw vchains = Value () \<longleftrightarrow>
   (\<exists>leaf chain rest. vchains = (leaf # chain) # rest \<and> (empty_ACL acl \<or> principal_allowed acl leaf)) \<or>
   (\<exists>rest. vchains = [] # rest \<and> empty_ACL acl)"
proof (cases vchains)
  case (Cons first rest)
  then show ?thesis
    by (cases first)
      (auto simp: VerifyPeerCertificateClient_eq, auto simp: VerifyPeerCertificateClient_def empty_ACL_def split: if_splits)
qed simp

lemma server_authenticates_principal:
  assumes "server_authenticates w (with_verifier config acl) certs = Value ()"
  shows "server_principal w (with_verifier config acl) acl certs"
  using assms
  by (cases "ClientAuth config")
    (auto simp: server_authenticates_def Let_def requiresClientCert_def with_verifier_def server_principal_def call_verifier_def
      VerifyPeerCertificateServer_Value split: sum.splits if_splits)

text \<open>A proxy behind a TLS listener with such a configuration, whatever else it meets.\<close>

definition tls_peers :: "world \<Rightarrow> tls_Config \<Rightarrow> ACL \<Rightarrow> peers \<Rightarrow> peers" where
  "tls_peers w config acl net =
     net\<lparr>handshake_accepts := (\<lambda>certs. server_authenticates w (with_verifier config acl) certs = Value ())\<rparr>"

interpretation server_listener: authenticated_forwarding "tls_peers w config acl net"
  "server_principal w (with_verifier config acl) acl" for w config acl net
  by unfold_locales (simp add: tls_peers_def server_authenticates_principal)


text \<open>Every connection of a running process keeps the invariant of handlers.\<close>

lemma process_conn_inv:
  assumes "run b w f command = Serving st be" and "process_reachable b net W (serving f st) s"
    and "c \<in> set (conns (proxy s))"
  shows "conn_inv net c"
proof -
  obtain pp where "started_proxy st = start 1 pp"
    using assms(1) by (rule run_started)
  from process_reachable_inv [OF assms(2) this] have "proxy_reachable net (start 1 pp) (proxy s)"
    by (simp add: process_inv_def)
  from reachable_counter_inv [OF this] assms(3) show ?thesis
    by (auto simp: counter_inv_def list_all_iff)
qed


section \<open>Server mode\<close>

lemma run_server_start:
  assumes "run b w f ServerCommand = Serving st be"
  obtains certificate config uris where
    "buildCertificate b w (init_flags b f) (keystorePath f) (keystorePass f) = Value (Some certificate)"
    "cert (started_context st) = Some certificate" "serverValidateFlags (init_flags b f) = None"
    "serverBackendDialer w (init_flags b f) = Inr be"
    "buildConfig w (enabledCipherSuites f) (caBundlePath f) = Inr config"
    "CompileList (serverAllowedURIs f) = Inr uris"
    "listen_tls st = Some (with_verifier (config\<lparr>config_GetCertificate := Some GetCertificate\<rparr>) (serverACL f uris))"
    "started_proxy st = start 1 (serverProxyProtocol (init_flags b f))"
proof -
  obtain certificate where c: "buildCertificate b w (init_flags b f) (keystorePath f) (keystorePass f) = Value certificate"
    "run_server w (init_flags b f) certificate = Serving st be"
    using assms by (auto elim: run_Serving)
  from c(2) show ?thesis
  proof (rule run_server_Serving)
    assume v: "serverValidateFlags (init_flags b f) = None" "serverBackendDialer w (init_flags b f) = Inr be"
      and l: "serverListen w (init_flags b f) (new_context (init_flags b f) certificate) = Value st"
    from l show ?thesis
      by (rule serverListen_Value) (use v c(1) that in \<open>auto simp: new_context_def with_verifier_def\<close>)
  qed
qed

text \<open>
  C14. A server always has a certificate to present, in every state that the running process can
  reach, also while the reload of a signal and a timed reload overlap: the TLS listener asks the
  certificate object, and the object returns the pair of start-up or the pair that one successful
  reload loads, in a world in which a reload may run. It is never nil and never a mixture of two
  loads.
\<close>

theorem server_always_has_certificate:
  assumes "run b w f ServerCommand = Serving st be" and "process_reachable b net W (serving f st) s"
  shows "\<exists>k config c pair. cert (started_context st) = Some k \<and>
    listen_tls st = Some config \<and> config_GetCertificate config = Some GetCertificate \<and>
    cert (ctx s) = Some c \<and> GetCertificate c = Inr (Some pair) \<and>
    (GetCertificate k = Inr (Some pair) \<or>
     (\<exists>v\<in>W. snd (Reload v k) = Value () \<and> GetCertificate (fst (Reload v k)) = Inr (Some pair)))"
  using assms(1)
proof (rule run_server_start)
  fix certificate config uris
  assume k: "cert (started_context st) = Some certificate"
    and "listen_tls st = Some (with_verifier (config\<lparr>config_GetCertificate := Some GetCertificate\<rparr>) (serverACL f uris))"
  with served_certificate_was_loaded [OF assms(1) k assms(2)] show ?thesis
    by (auto simp: with_verifier_def)
qed

theorem server_always_has_certificate_witness:
  "\<exists>st be s c pair. run sample_build sample_world sample_server ServerCommand = Serving st be \<and>
     process_reachable sample_build any_peers {broken_world} (serving sample_server st) s \<and>
     main_at s = InReload Loading \<and> cert (ctx s) = Some c \<and> GetCertificate c = Inr (Some pair)"
proof -
  obtain st be s where s: "run sample_build sample_world sample_server ServerCommand = Serving st be"
    "process_reachable sample_build any_peers {broken_world} (serving sample_server st) s"
    "main_at s = InReload Loading" "reloading (status (ctx s))"
    by (rule sample_reloading)
  from server_always_has_certificate [OF s(1,2)] s(1-3) show ?thesis by metis
qed


text \<open>
  C28. A server without \<open>--unsafe-target\<close> forwards to this machine only: its backend is a unix
  socket, or a TCP address whose host part is localhost, 127.0.0.1 or ::1.
\<close>

theorem server_forwards_locally:
  assumes "run b w f ServerCommand = Serving st be" and "\<not> serverUnsafeTarget f"
  shows "\<exists>network address timeout. be = PlainBackend network address timeout \<and>
    (network = ''unix'' \<and> serverForwardAddress f = ''unix:'' @ address \<or>
     network = ''tcp'' \<and> (\<exists>host port. host_port address host port \<and> host \<in> loopback_hosts))"
  using assms(1)
proof (rule run_server_start)
  assume v: "serverValidateFlags (init_flags b f) = None" and d: "serverBackendDialer w (init_flags b f) = Inr be"
  from v assms(2) have ok: "validateUnixOrLocalhost (serverForwardAddress f)"
    by (auto simp: serverValidateFlags_def split: if_splits)
  from d obtain network address host where
    p: "parseUnixOrTCPAddress w (serverForwardAddress f) = Inr (network, address, host)"
    and be: "\<exists>timeout. be = PlainBackend network address timeout"
    by (auto simp: serverBackendDialer_def split: sum.splits)
  show ?thesis
  proof (cases "HasPrefix (serverForwardAddress f) ''unix:''")
    case True
    with p be show ?thesis by (auto simp: parseUnixOrTCPAddress_def HasPrefix_iff)
  next
    case False
    with p obtain port where "host_port (serverForwardAddress f) host port" "network = ''tcp''"
        "address = serverForwardAddress f"
      by (auto simp: parseUnixOrTCPAddress_def split: sum.splits option.splits simp flip: SplitHostPort_iff)
    with validated_host [OF ok False] be show ?thesis by blast
  qed
qed

theorem server_forwards_locally_witness:
  "\<exists>st network address timeout. sample_serving = Serving st (PlainBackend network address timeout)"
proof -
  obtain st be where s: "run sample_build sample_world sample_server ServerCommand = Serving st be"
    using sample_serving_runs unfolding sample_serving_def by blast
  then show ?thesis
    using server_forwards_locally [OF s] unfolding sample_serving_def
    by (auto simp: sample_server_def default_flags_def)
qed

lemma server_never_asks:
  assumes "run b w f ServerCommand = Serving st be"
  shows "\<exists>config. listen_tls st = Some config \<and> ClientAuth config = NoClientCert \<and>
    (\<forall>now certs. server_authenticates now config certs = Value ())"
  using assms
proof (rule run_server_start)
  fix config uris
  assume "buildConfig w (enabledCipherSuites f) (caBundlePath f) = Inr config"
    and "listen_tls st = Some (with_verifier (config\<lparr>config_GetCertificate := Some GetCertificate\<rparr>) (serverACL f uris))"
  then show ?thesis
    by (auto simp: with_verifier_def server_authenticates_def Let_def requiresClientCert_def dest: buildConfig_fields(1))
qed

lemma server_listens_on_tcp:
  assumes "run b w f ServerCommand = Serving st be"
  shows "listen_network st = ''tcp''"
  using assms
  by (elim run_Serving; auto elim!: run_server_Serving simp: serverListen_def Let_def
      split: sum.splits option.splits if_splits outcome.splits)

lemma server_friendly:
  assumes "run b w f ServerCommand = Serving st be" and "dialed_conn W be TCPConn []" and "0 < timeout"
  shows "friendly (process_peers W st be) timeout"
proof -
  obtain config where c: "listen_tls st = Some config" "\<forall>now certs. server_authenticates now config certs = Value ()"
    using server_never_asks [OF assms(1)] by blast
  have "W \<noteq> {}" using assms(2) by (cases be) auto
  with c server_listens_on_tcp [OF assms(1)] assms(2,3) show ?thesis
    by (auto simp: friendly_def sample_peers_def accepted_conn_def sample_addr_def accepted_handshake_def)
qed

text \<open>
  C39. In server mode client certificates are never asked for: the configuration of the listener
  keeps \<open>tls.NoClientCert\<close> with every combination of flags, so the handshake accepts every peer,
  with any certificates or with none, and the access control list is not consulted. So if the
  backend of the server can be reached, there is a run of the process in which the data of a client
  arrives there, although nothing is known of the verification of its certificates.
\<close>

theorem server_accepts_every_client:
  assumes "run b w f ServerCommand = Serving st be"
  shows "(\<exists>config. listen_tls st = Some config \<and> ClientAuth config = NoClientCert \<and>
      (\<forall>now certs. server_authenticates now config certs = Value ())) \<and>
    (dialed_conn W be TCPConn [] \<and> 0 < timeout \<longrightarrow>
       (\<exists>r c. running_reachable b (process_peers W st be) W enc timeout (running_start (timedReload f) st) r \<and>
          conns (control (data r)) = [c] \<and> kind (client c) = TLSConn \<and> peer c = [''cert''] \<and>
          backend_received (data r) 0 = client_header enc (serverProxyProtocol f) c @ ''ping''))"
proof (intro conjI impI)
  let ?c = "at_stage (Fusing Copying Copying) sample_backend" and ?pp = "serverProxyProtocol f"
  assume a: "dialed_conn W be TCPConn [] \<and> 0 < timeout"
  obtain x where x: "at_work enc timeout (process_peers W st be) ?pp ?c sample_heap sample_flow
      (client_header enc ?pp sample_conn) None x"
    using at_work_copied [OF server_friendly [OF assms], of W timeout _ enc ?pp] a by blast
  from x obtain r where
    "running_reachable b (process_peers W st be) W enc timeout (running_start (timedReload f) st) r" "data r = x"
    using running_shows_data [OF assms, of x "process_peers W st be" enc timeout W] by (auto simp: at_work_def undisturbed_def)
  with x show "\<exists>r c. running_reachable b (process_peers W st be) W enc timeout (running_start (timedReload f) st) r \<and>
      conns (control (data r)) = [c] \<and> kind (client c) = TLSConn \<and> peer c = [''cert''] \<and>
      backend_received (data r) 0 = client_header enc ?pp c @ ''ping''"
    by (intro exI [of _ r] exI [of _ ?c])
      (simp add: at_work_def backend_received_def sample_flow_def new_endpoint_def client_header_def sample_conn_def new_conn_def)
qed (rule server_never_asks [OF assms])

text \<open>A world in which no certificate verifies.\<close>

definition distrusting_world :: world where
  "distrusting_world = sample_world\<lparr>x509_Verify := (\<lambda>roots host certs. Inl ''unknown authority'')\<rparr>"

theorem server_accepts_every_client_witness:
  "\<exists>st be r c. run sample_build sample_world sample_server ServerCommand = Serving st be \<and>
     running_reachable sample_build (process_peers {distrusting_world} st be) {distrusting_world} (\<lambda>_. []) 10
       (running_start (timedReload sample_server) st) r \<and>
     conns (control (data r)) = [c] \<and> backend_received (data r) 0 = ''ping'' \<and>
     is_error (x509_Verify distrusting_world [''ca''] [] (peer c))"
proof -
  obtain st be where s: "run sample_build sample_world sample_server ServerCommand = Serving st be"
    by (rule sample_process)
  have "dialed_conn {distrusting_world} be TCPConn []"
    using s
  proof (rule run_server_start)
    assume "serverBackendDialer sample_world (init_flags sample_build sample_server) = Inr be"
    then show ?thesis
      by (auto simp: serverBackendDialer_def parseUnixOrTCPAddress_def HasPrefix_def sample_server_def default_flags_def
          network_conn_def distrusting_world_def sample_world_def split: sum.splits option.splits)
  qed
  moreover have "serverProxyProtocol sample_server = False"
    by (simp add: sample_server_def default_flags_def)
  ultimately obtain r c where
    "running_reachable sample_build (process_peers {distrusting_world} st be) {distrusting_world} (\<lambda>_. []) 10
       (running_start (timedReload sample_server) st) r" "conns (control (data r)) = [c]" "backend_received (data r) 0 = ''ping''"
    using server_accepts_every_client [OF s, of "{distrusting_world}" 10 "\<lambda>_. []"] by auto
  with s show ?thesis
    by (intro exI [of _ st] exI [of _ be] exI [of _ r] exI [of _ c]) (simp add: distrusting_world_def)
qed


definition strict_config :: tls_Config where
  "strict_config = \<lparr>RootCAs = [''ca''], ClientCAs = [''ca''], PreferServerCipherSuites = True,
     ClientAuth = RequireAndVerifyClientCert, MinVersion = VersionTLS10, CipherSuites = [],
     CurvePreferences = [], ServerName = [], config_GetCertificate = None,
     config_GetClientCertificate = None, config_VerifyPeerCertificate = None\<rparr>"

lemma strict_accepts:
  "server_authenticates sample_world (with_verifier strict_config (no_ACL\<lparr>AllowedCNs := [''server'']\<rparr>)) [''cert''] = Value ()"
  by (simp add: server_authenticates_def Let_def requiresClientCert_def with_verifier_def strict_config_def call_verifier_def sample_worlds
      VerifyPeerCertificateServer_eq principal_allowed_def no_ACL_def)



section \<open>Client mode\<close>

lemma run_client_start:
  assumes "run b w f ClientCommand = Serving st be"
  obtains certificate network address host d uris where
    "buildCertificate b w (init_flags b f) (keystorePath f) (keystorePass f) = Value certificate"
    "clientValidateFlags (init_flags b f) = None"
    "parseUnixOrTCPAddress w (clientForwardAddress f) = Inr (network, address, host)"
    "be = TLSBackend d network address" "CompileList (clientAllowedURIs f) = Inr uris"
    "ServerName (dialer_config d) = (if clientServerName f = [] then host else clientServerName f)"
    "config_VerifyPeerCertificate (dialer_config d) = Some (VerifyPeerCertificateClient (clientACL f uris))"
    "config_GetClientCertificate (dialer_config d) = (if certificate = None then None else Some GetClientCertificate)"
    "cert (started_context st) = certificate"
    "\<exists>h. parseUnixOrTCPAddress w (clientListenAddress f) = Inr (listen_network st, listen_address st, h)"
    "caBundle w (caBundlePath f) = Inr (RootCAs (dialer_config d))"
proof -
  obtain certificate where c: "buildCertificate b w (init_flags b f) (keystorePath f) (keystorePass f) = Value certificate"
    "run_client w (init_flags b f) certificate = Serving st be"
    using assms by (auto elim: run_Serving)
  from c(2) show ?thesis
  proof (rule run_client_Serving)
    fix network address host
    assume v: "clientValidateFlags (init_flags b f) = None"
        "parseUnixOrTCPAddress w (clientForwardAddress (init_flags b f)) = Inr (network, address, host)"
      and d: "clientBackendDialer w (init_flags b f) certificate network address host = Inr be"
      and l: "clientListen w (init_flags b f) (new_context (init_flags b f) certificate) = Value st"
    obtain h where "parseUnixOrTCPAddress w (clientListenAddress f) = Inr (listen_network st, listen_address st, h)"
      "cert (started_context st) = certificate"
      using l by (rule clientListen_Value) (simp add: new_context_def)
    with d show ?thesis
      by - (erule clientBackendDialer_Inr, use v c(1) that in simp)
  qed
qed

lemma client_authenticates_Value:
  assumes "client_authenticates now config certs = Value ()"
    and "config_VerifyPeerCertificate config = Some (VerifyPeerCertificateClient acl)"
  shows "ServerName config \<noteq> [] \<and> (\<exists>vchains. x509_Verify now (RootCAs config) (ServerName config) certs = Inr vchains \<and>
    vchains \<noteq> [] \<and> (empty_ACL acl \<or> (\<exists>leaf chain. hd vchains = leaf # chain \<and> principal_allowed acl leaf)))"
  using assms
  by (auto simp: client_authenticates_def call_verifier_def VerifyPeerCertificateClient_Value
      split: if_splits sum.splits)

lemma sample_client_fields:
  "clientServerName sample_client = []" "clientForwardAddress sample_client = ''example.com:443''"
  "clientAllowedURIs sample_client = []" "empty_ACL (clientACL sample_client [])"
  "clientListenAddress sample_client = ''localhost:8080''"
  by (simp_all add: sample_client_def default_flags_def empty_ACL_def clientACL_def)

lemma sample_dials: "Dialer_Dial sample_world e network address = None"
  by (cases e) (simp_all add: sample_world_def)

lemma sample_client_authenticates:
  assumes "run sample_build sample_world sample_client ClientCommand = Serving st (TLSBackend d network address)"
  shows "client_authenticates sample_world (dialer_config d) [''cert''] = Value ()"
proof -
  have "x509_Verify sample_world roots host [''cert''] = Inr [[der_leaf\<lparr>Raw := ''cert''\<rparr>]]" for roots host
    by (simp add: sample_world_def)
  with assms show ?thesis
    by (elim run_client_start)
      (auto simp: client_authenticates_def call_verifier_def sample_client_fields sample_parses CompileList_def
        VerifyPeerCertificateClient_eq)
qed

lemma sample_client_started:
  assumes "run sample_build sample_world sample_client ClientCommand = Serving st be"
  shows "started_proxy st = start 1 False \<and> listen_network st = ''tcp'' \<and> listen_tls st = None"
  using assms
  by (elim run_Serving) (auto elim!: run_client_Serving clientListen_Value simp: sample_client_fields sample_parses)

text \<open>A server that proved its identity: what the dialer of a client has checked, in the world \<open>now\<close>.\<close>

definition verified_server :: "world \<Rightarrow> world \<Rightarrow> flags \<Rightarrow> string list \<Rightarrow> bool" where
  "verified_server w now f certs \<longleftrightarrow>
     (\<exists>ca network address host uris vchains.
        caBundle w (caBundlePath f) = Inr ca \<and>
        parseUnixOrTCPAddress w (clientForwardAddress f) = Inr (network, address, host) \<and>
        CompileList (clientAllowedURIs f) = Inr uris \<and>
        (clientServerName f = [] \<longrightarrow> host \<noteq> []) \<and>
        x509_Verify now ca (if clientServerName f = [] then host else clientServerName f) certs = Inr vchains \<and>
        vchains \<noteq> [] \<and>
        (empty_ACL (clientACL f uris) \<or>
         (\<exists>leaf chain. hd vchains = leaf # chain \<and> principal_allowed (clientACL f uris) leaf)))"

lemma client_dials_verified:
  assumes "run b w f ClientCommand = Serving st be" and "dialed_conn W be k certs"
  shows "k = TLSConn \<and> (\<exists>now\<in>W. verified_server w now f certs)"
  using assms(1)
proof (rule run_client_start)
  fix certificate network address host d uris
  assume c: "parseUnixOrTCPAddress w (clientForwardAddress f) = Inr (network, address, host)"
    "be = TLSBackend d network address" "CompileList (clientAllowedURIs f) = Inr uris"
    "ServerName (dialer_config d) = (if clientServerName f = [] then host else clientServerName f)"
    "config_VerifyPeerCertificate (dialer_config d) = Some (VerifyPeerCertificateClient (clientACL f uris))"
    "caBundle w (caBundlePath f) = Inr (RootCAs (dialer_config d))"
  from assms(2) c(2) obtain now where k: "k = TLSConn" "now \<in> W"
      and certs: "client_authenticates now (dialer_config d) certs = Value ()"
    by (auto simp: mtlsDialer_Dial_Inr client_handshakes_def)
  from client_authenticates_Value [OF certs c(5)] c have "verified_server w now f certs"
    unfolding verified_server_def by (fastforce split: if_splits)
  with k show ?thesis by blast
qed

text \<open>
  Without a name to verify a client connects to nobody: with a unix socket as the target there is no
  host, and without \<open>--override-server-name\<close> the dialer never returns a connection.
\<close>

theorem client_needs_server_name:
  assumes "run b w f ClientCommand = Serving st be" and "clientServerName f = []"
    and "HasPrefix (clientForwardAddress f) ''unix:''"
  shows "\<not> dialed_conn W be k certs"
proof
  assume "dialed_conn W be k certs"
  from client_dials_verified [OF assms(1) this] assms(2,3) show False
    by (auto simp: verified_server_def parseUnixOrTCPAddress_def)
qed

lemma client_peer_verified:
  assumes "run b w f ClientCommand = Serving st be"
    and "running_reachable b (process_peers W st be) W enc timeout (running_start (timedReload f) st) r"
    and "i < length (conns (control (data r)))" and "backend (conns (control (data r)) ! i) = Some e"
  shows "kind e = TLSConn \<and> (\<exists>now\<in>W. verified_server w now f (backend_peer (conns (control (data r)) ! i)))"
proof -
  note halves = running_halves [OF assms(1,2)]
  have "conn_inv (process_peers W st be) (conns (control (data r)) ! i)"
    using process_conn_inv [OF assms(1) halves(2)] halves(1) assms(3) by (simp add: joined_def)
  then have "dialed_conn W be (kind e) (backend_peer (conns (control (data r)) ! i))"
    using assms(4) by (simp add: conn_inv_def)
  with assms(1) show ?thesis by (rule client_dials_verified)
qed

text \<open>
  C13. A client process talks to verified servers only: in every state that it can reach, with its
  reloads, its signals and its data under way, a connection that has a backend, or of which a byte
  went either way, has a TLS connection there. The certificates that the server presented on that
  very connection verify against the CA bundle for the expected name (the host of \<open>--target\<close>, or
  \<open>--override-server-name\<close>), which is never empty, and their leaf passes the \<open>--verify\<close> flags when
  there are any.
\<close>

theorem client_connects_to_verified_servers:
  assumes "run b w f ClientCommand = Serving st be"
    and "running_reachable b (process_peers W st be) W enc timeout (running_start (timedReload f) st) r"
    and "i < length (conns (control (data r)))"
    and "backend (conns (control (data r)) ! i) \<noteq> None \<or> client_received (data r) i \<noteq> [] \<or> backend_received (data r) i \<noteq> []"
  shows "\<exists>e. backend (conns (control (data r)) ! i) = Some e \<and> kind e = TLSConn \<and>
    (\<exists>now\<in>W. verified_server w now f (backend_peer (conns (control (data r)) ! i)))"
proof -
  obtain e where e: "backend (conns (control (data r)) ! i) = Some e"
    using assms(4) reachable_data_backend [OF running_halves(3) [OF assms(1,2)] assms(3)] by blast
  with client_peer_verified [OF assms(1-3) e] show ?thesis by simp
qed

theorem client_connects_to_verified_servers_witness:
  "\<exists>st be r c e. run sample_build sample_world sample_client ClientCommand = Serving st be \<and>
     running_reachable sample_build (process_peers {sample_world} st be) {sample_world} (\<lambda>_. []) 10
       (running_start (timedReload sample_client) st) r \<and>
     conns (control (data r)) = [c] \<and> backend c = Some e \<and> kind e = TLSConn \<and>
     verified_server sample_world sample_world sample_client (backend_peer c)"
proof -
  obtain st d where r: "run sample_build sample_world sample_client ClientCommand = Serving st (TLSBackend d ''tcp'' ''example.com:443'')"
    using sample_client_runs by blast
  let ?be = "TLSBackend d ''tcp'' ''example.com:443''"
  let ?net = "process_peers {sample_world} st ?be"
  have dial: "dial_returns ?net TLSConn [''cert'']"
    using sample_client_authenticates [OF r]
    by (auto simp: mtlsDialer_Dial_Inr client_handshakes_def sample_dials)
  have st: "started_proxy st = start 1 False" "listen_network st = ''tcp''" "listen_tls st = None"
    using sample_client_started [OF r] by simp_all
  then have "listener_returns ?net TCPConn sample_addr sample_addr"
    by (simp add: accepted_conn_def network_conn_def sample_addr_def)
  from running_serves_accepted [OF st(1) this]
  have "running_serves sample_build ?net {sample_world} (\<lambda>_. []) 10 (running_start (timedReload sample_client) st)
    (new_conn TCPConn [] sample_addr sample_addr)" .
  from running_serves_connected [OF this _ dial] obtain c x where
    s: "running_reachable sample_build ?net {sample_world} (\<lambda>_. []) 10 (running_start (timedReload sample_client) st) x"
      "conns (control (data x)) = [c]" "backend c = Some (new_endpoint TLSConn)"
    by (auto simp: running_serves_def)
  with client_connects_to_verified_servers [OF r s(1), of 0] r show ?thesis
    by (intro exI [of _ st] exI [of _ ?be] exI [of _ x] exI [of _ c] exI [of _ "new_endpoint TLSConn"]) auto
qed

text \<open>
  A server never closes the descriptor of a backend connection, whatever the stage of its handler; a
  client has closed it when the handler has finished.
\<close>

lemma backend_dialed:
  assumes "run b w f command = Serving st be" and "conn_inv (process_peers W st be) c" and "backend c = Some e"
  shows "command = ServerCommand \<and> kind e \<in> {TCPConn, UnixConn} \<or> command = ClientCommand \<and> kind e = TLSConn"
proof -
  have d: "dialed_conn W be (kind e) (backend_peer c)"
    using assms(2,3) by (simp add: conn_inv_def)
  show ?thesis
  proof (cases command)
    case ServerCommand
    with assms(1) have "run b w f ServerCommand = Serving st be" by simp
    then show ?thesis
    proof (rule run_server_start)
      assume "serverBackendDialer w (init_flags b f) = Inr be"
      with d ServerCommand show ?thesis
        by (auto simp: serverBackendDialer_def network_conn_def split: sum.splits)
    qed
  next
    case ClientCommand
    with assms(1) have "run b w f ClientCommand = Serving st be" by simp
    from client_dials_verified [OF this d] ClientCommand show ?thesis by blast
  next
    case UnknownCommand
    with assms(1) show ?thesis by (auto elim: run_Serving)
  qed
qed

theorem backend_descriptors:
  assumes "run b w f command = Serving st be"
    and "running_reachable b (process_peers W st be) W enc timeout (running_start (timedReload f) st) r"
    and "i < length (conns (control (data r)))" and "backend (conns (control (data r)) ! i) = Some e"
  shows "command = ServerCommand \<and> \<not> descriptor_closed e \<or>
    command = ClientCommand \<and> (stage (conns (control (data r)) ! i) = Finished \<longrightarrow> descriptor_closed e)"
proof -
  let ?c = "conns (control (data r)) ! i" and ?pp = "command = ServerCommand \<and> serverProxyProtocol f"
  note halves = running_halves [OF assms(1,2)]
  have "descriptor_inv ?pp ?c"
    using reachable_descriptor_inv [OF forward_control [OF halves(3)]] assms(3) by (simp add: list_all_length)
  moreover have "conn_inv (process_peers W st be) ?c"
    using process_conn_inv [OF assms(1) halves(2)] halves(1) assms(3) by (simp add: joined_def)
  from backend_dialed [OF assms(1) this assms(4)] have "command = ServerCommand \<and> kind e \<in> {TCPConn, UnixConn} \<or>
    command = ClientCommand \<and> kind e = TLSConn" .
  ultimately show ?thesis
    using assms(4) by (auto simp: descriptor_inv_def closed_backend_def)
qed

text \<open>
  In client mode the certificate that is presented to servers is the one of the certificate
  object at the time of the handshake, so a reload takes effect for the next connection; without
  a certificate none is presented. A client without \<open>--unsafe-listen\<close> listens locally only.
\<close>

theorem client_presents_current_certificate:
  assumes "run b w f ClientCommand = Serving st be"
  shows "\<exists>d network address. be = TLSBackend d network address \<and>
    config_GetClientCertificate (dialer_config d) =
      (if cert (started_context st) = None then None else Some GetClientCertificate) \<and>
    (clientUnsafeListen f \<or> listen_network st = ''unix'' \<or>
     (\<exists>host port. host_port (listen_address st) host port \<and> host \<in> loopback_hosts))"
  using assms
proof (rule run_client_start)
  fix certificate network address host d uris
  assume v: "clientValidateFlags (init_flags b f) = None" and be: "be = TLSBackend d network address"
    "config_GetClientCertificate (dialer_config d) = (if certificate = None then None else Some GetClientCertificate)"
    "cert (started_context st) = certificate"
    and l: "\<exists>h. parseUnixOrTCPAddress w (clientListenAddress f) = Inr (listen_network st, listen_address st, h)"
  have "listen_network st = ''unix'' \<or> (\<exists>host port. host_port (listen_address st) host port \<and> host \<in> loopback_hosts)"
    if safe: "\<not> clientUnsafeListen f"
  proof -
    from v safe have ok: "validateUnixOrLocalhost (clientListenAddress f)"
      by (auto simp: clientValidateFlags_def split: if_splits)
    with l validated_host [OF ok] show ?thesis
      by (fastforce simp: parseUnixOrTCPAddress_def split: sum.splits option.splits if_splits simp flip: SplitHostPort_iff)
  qed
  with be show ?thesis by blast
qed


theorem client_presents_current_certificate_witness:
  "\<exists>st d. run sample_build sample_world sample_client ClientCommand = Serving st (TLSBackend d ''tcp'' ''example.com:443'') \<and>
     config_GetClientCertificate (dialer_config d) =
       (if cert (started_context st) = None then None else Some GetClientCertificate)"
proof -
  obtain st d where r: "run sample_build sample_world sample_client ClientCommand = Serving st (TLSBackend d ''tcp'' ''example.com:443'')"
    using sample_client_runs by blast
  with client_presents_current_certificate [OF r] show ?thesis by auto
qed


lemma disabled_authentication_has_no_certificate:
  assumes "run b w f ClientCommand = Serving st be" and "clientDisableAuth f" and "\<not> (with_pkcs11 b \<and> hasPKCS11 f)"
  shows "cert (started_context st) = None"
  using assms(1)
proof (rule run_client_start)
  fix certificate
  assume c: "buildCertificate b w (init_flags b f) (keystorePath f) (keystorePass f) = Value certificate"
    and v: "clientValidateFlags (init_flags b f) = None" and "cert (started_context st) = certificate"
  have "keystorePath f = []" "\<not> hasKeychainIdentity (init_flags b f)"
    using v assms(2) by (auto simp: clientValidateFlags_def split: if_splits)
  then have "buildCertificate b w (init_flags b f) (keystorePath f) (keystorePass f) = Value None"
    using assms(3) by (simp add: buildCertificate_None hasPKCS11_init)
  with c \<open>cert (started_context st) = certificate\<close> show ?thesis by simp
qed


section \<open>Failures of a running process\<close>

text \<open>A proxy header that panics does not occur: only servers use it, and they listen on TCP.\<close>

lemma no_bad_header:
  assumes "run b w f command = Serving st be" and "process_reachable b (process_peers W st be) W (serving f st) s"
  shows "\<not> list_ex (bad_header (proxy s)) (conns (proxy s))"
proof -
  obtain certificate where c:
      "serverListen w (init_flags b f) (new_context (init_flags b f) certificate) = Value st \<or>
       clientListen w (init_flags b f) (new_context (init_flags b f) certificate) = Value st"
    using assms(1) by (elim run_Serving) (auto elim: run_server_Serving run_client_Serving)
  then consider "listen_network st = ''tcp''" | "started_proxy st = start 1 False"
    by (auto simp: serverListen_def Let_def split: sum.splits option.splits if_splits elim: clientListen_Value)
  then show ?thesis
  proof cases
    case 1
    then show ?thesis
      using tcp_conn_header [OF process_conn_inv [OF assms]] by (auto simp: list_ex_iff)
  next
    case 2
    with process_reachable_inv [OF assms(2) 2] have "\<not> proxyProtocol (proxy s)"
      using reachable_proxyProtocol by (auto simp: process_inv_def)
    then show ?thesis by (simp add: bad_header_def list_ex_iff)
  qed
qed




section \<open>Failures at start-up\<close>

definition unix_status_fails :: "world \<Rightarrow> flags \<Rightarrow> bool" where
  "unix_status_fails w f \<longleftrightarrow>
     HasPrefix (statusAddress f) ''unix:'' \<and> listen_error w ''unix'' (drop 5 (statusAddress f)) \<noteq> None"

lemma serveStatus_Panic:
  "serveStatus_if_set w f cx = Panic p \<Longrightarrow> unix_status_fails w f"
  by (cases "serveStatus w f cx")
    (auto simp: serveStatus_if_set_def serveStatus_def parseUnixOrTCPAddress_def unix_status_fails_def Let_def
      split: if_splits sum.splits option.splits)

lemma serverListen_Panic:
  assumes "serverListen w f cx = Panic p"
  shows "cert cx = None \<or> unix_status_fails w f"
  using assms
  by (cases "serveStatus_if_set w f cx")
    (auto simp: serverListen_def Let_def split: if_splits sum.splits option.splits dest: serveStatus_Panic)

lemma clientListen_Panic:
  assumes "clientListen w f cx = Panic p"
  shows "unix_status_fails w f"
  using assms
  by (cases "serveStatus_if_set w f cx")
    (auto simp: clientListen_def split: sum.splits option.splits dest: serveStatus_Panic)

lemma run_server_Panic:
  assumes "run_server w f certificate = RunPanic p"
    and "buildCertificate b w f (keystorePath f) pass = Value certificate"
  shows "unix_status_fails w f"
proof -
  from assms(1) have v: "serverValidateFlags f = None" and l: "serverListen w f (new_context f certificate) = Panic p"
    by (auto simp: run_server_def listen_result_RunPanic split: option.splits sum.splits)
  from v have "keystorePath f \<noteq> [] \<or> hasKeychainIdentity f"
    by (auto simp: serverValidateFlags_def split: if_splits)
  with assms(2) buildCertificate_None [of b w f "keystorePath f" pass] have "certificate \<noteq> None"
    by auto
  with serverListen_Panic [OF l] show ?thesis
    by (simp add: new_context_def)
qed



end
